theory Spec2Isabelle
  imports Main "HOL-Library.Monad_Syntax"
begin

section \<open>Go values shared by both packages\<close>

text \<open>
  The repository holds two generations of the package \<open>errmgt\<close>: the root package
  (\<open>errmgt.go\<close>) and its successor (\<open>v1/errmgt.go\<close>).  Both build error values that
  live behind pointers, so the model keeps an explicit store.

  \<^item> An address is the index of an object in the store; allocation appends, so a fresh
    object never changes what older pointers see.
  \<^item> A value of type \<open>error\<close> is \<open>None\<close> (the nil interface) or \<open>Some a\<close>, a
    pointer to a stored error object.  Interface equality \<open>==\<close> on such values is
    pointer equality, which is equality of addresses here.  The references kept in
    stored objects (a \<open>Cause\<close> field, the error a wrapper holds) are of this type.
  \<^item> A Go interface can also hold a nil pointer of a concrete type, and is then not
    nil itself.  For this package the case that matters is a nil \<open>*ManagedError\<close>:
    \<open>errors.As\<close> matches it like any \<open>*ManagedError\<close>.  The type \<open>error_value\<close> of
    section \<open>Queries over arbitrary errors\<close> adds this value for the arguments of
    \<open>IsType\<close>, \<open>IsRetryable\<close> and \<open>GetContext\<close>.
  \<^item> A Go map value is \<open>None\<close> (the nil map) or \<open>Some m\<close> with \<open>m\<close> a finite map
    from keys to values.
  \<^item> The error objects are those of the standard library that the package and its
    tests build (\<open>errors.New\<close>, \<open>fmt.Errorf\<close> with \<open>%w\<close>) and the package's own
    \<open>*ManagedError\<close>.  Error types of other packages, with methods of their own, are
    not values of the model.

  Every operation that can panic, follow an invalid pointer or fail to return yields
  \<open>None\<close>; \<open>Some r\<close> means the Go call returns \<open>r\<close>.  The standard library's
  \<open>errors\<close> and \<open>fmt\<close> are not part of the repository; the functions of them that
  the package calls are modelled after their documented behaviour on these objects.
\<close>

type_synonym addr = nat

type_synonym error = "addr option"

definition deref :: "'o list \<Rightarrow> addr \<Rightarrow> 'o option" where
  "deref h a = (if a < length h then Some (h ! a) else None)"

definition alloc :: "'o list \<Rightarrow> 'o \<Rightarrow> 'o list \<times> addr" where
  "alloc h obj = (h @ [obj], length h)"

text \<open>
  \<open>m[key] = value\<close> on a Go map: a write to the nil map panics, a write to an
  initialised map overwrites the entry for \<open>key\<close>.
\<close>

definition map_store :: "('k \<rightharpoonup> 'v) option \<Rightarrow> 'k \<Rightarrow> 'v \<Rightarrow> ('k \<rightharpoonup> 'v) option" where
  "map_store m key val = (case m of None \<Rightarrow> None | Some c \<Rightarrow> Some (c(key \<mapsto> val)))"

section \<open>Package \<open>errmgt\<close>, generation v1 (\<open>v1/errmgt.go\<close>)\<close>

subsection \<open>Data\<close>

type_synonym ErrorType = string

definition ValidationError :: ErrorType where
  "ValidationError = ''validation''"

definition BusinessError :: ErrorType where
  "BusinessError = ''business''"

definition SystemError :: ErrorType where
  "SystemError = ''system''"

definition ExternalError :: ErrorType where
  "ExternalError = ''external''"

text \<open>
  The struct \<open>ManagedError\<close>, field by field.  \<open>StatusCode\<close> is a Go \<open>int\<close>; the package
  only stores and returns it, so no arithmetic on it is modelled.
\<close>

record ManagedError =
  Code :: string
  Message :: string
  Details :: string
  Cause :: error
  Context :: "(string \<rightharpoonup> string) option"
  Type :: ErrorType
  StatusCode :: int
  Retryable :: bool

text \<open>
  The error objects a program using the package holds: the result of \<open>errors.New\<close>
  (\<open>*errors.errorString\<close>), the result of \<open>fmt.Errorf\<close> with one \<open>%w\<close> operand
  (\<open>*fmt.wrapError\<close>, the rendered text and the wrapped error, which is never nil),
  and \<open>*ManagedError\<close>.
\<close>

datatype object =
    ErrorString string
  | WrapError string addr
  | Managed ManagedError

type_synonym heap = "object list"

definition load :: "heap \<Rightarrow> addr \<Rightarrow> ManagedError option" where
  "load h p = (case deref h p of Some (Managed m) \<Rightarrow> Some m | _ \<Rightarrow> None)"

subsection \<open>The standard library's chain inspection (\<open>errors.Unwrap\<close>, \<open>errors.As\<close>, \<open>errors.Is\<close>)\<close>

text \<open>
  \<open>errors.Unwrap(err)\<close> calls the object's \<open>Unwrap() error\<close> method when it has one:
  \<open>*wrapError\<close> returns the wrapped error, \<open>*ManagedError\<close> returns its \<open>Cause\<close>,
  \<open>*errorString\<close> has no such method.
\<close>

definition errors_Unwrap :: "heap \<Rightarrow> addr \<Rightarrow> error" where
  "errors_Unwrap h a =
     (case deref h a of
        Some (WrapError msg b) \<Rightarrow> Some b
      | Some (Managed m) \<Rightarrow> Cause m
      | _ \<Rightarrow> None)"

text \<open>
  \<open>errors.As(err, &managedErr)\<close> with \<open>managedErr\<close> of type \<open>*ManagedError\<close>.  The
  library's loop \<open>as\<close> stops at the first object whose dynamic type is
  \<open>*ManagedError\<close> and stores it in the target; no object of the model has an \<open>As\<close>
  method; otherwise the loop follows \<open>Unwrap\<close> and gives up on nil or when there is
  no \<open>Unwrap\<close> method.
\<close>

datatype as_result = AsFalse | AsTrue addr

partial_function (option) errors_as :: "heap \<Rightarrow> addr \<Rightarrow> as_result option" where
  "errors_as h a =
     (case deref h a of
        None \<Rightarrow> None
      | Some (Managed m) \<Rightarrow> Some (AsTrue a)
      | Some (ErrorString s) \<Rightarrow> Some AsFalse
      | Some (WrapError msg b) \<Rightarrow> errors_as h b)"

declare errors_as.simps [code]

definition errors_As :: "heap \<Rightarrow> error \<Rightarrow> as_result option" where
  "errors_As h err = (case err of None \<Rightarrow> Some AsFalse | Some a \<Rightarrow> errors_as h a)"

text \<open>
  \<open>errors.Is(err, target)\<close>.  With either side nil the answer is \<open>err == target\<close>.
  Otherwise the library's loop \<open>is\<close> runs: pointer comparison first, then the
  object's own \<open>Is\<close> method when it has one, then \<open>Unwrap\<close>.  Only \<open>*ManagedError\<close> has
  an \<open>Is\<close> method, and that method calls \<open>errors.Is\<close> again on the cause, so its body
  (see \<open>ManagedError_Is\<close> below) is written out inside the loop.
\<close>

partial_function (option) errors_is :: "heap \<Rightarrow> addr \<Rightarrow> addr \<Rightarrow> bool option" where
  "errors_is h a t =
     (if a = t then Some True
      else (case deref h a of
        None \<Rightarrow> None
      | Some (ErrorString s) \<Rightarrow> Some False
      | Some (WrapError msg b) \<Rightarrow> errors_is h b t
      | Some (Managed e) \<Rightarrow>
          do {
            r \<leftarrow> (case errors_as h t of
                   None \<Rightarrow> None
                 | Some (AsTrue p) \<Rightarrow>
                     (case load h p of
                        None \<Rightarrow> None
                      | Some m \<Rightarrow> Some (Type e = Type m \<and> Code e = Code m))
                 | Some AsFalse \<Rightarrow>
                     (case Cause e of None \<Rightarrow> Some False | Some c \<Rightarrow> errors_is h c t));
            if r then Some True
            else (case Cause e of None \<Rightarrow> Some False | Some c \<Rightarrow> errors_is h c t)
          }))"

declare errors_is.simps [code]

definition errors_Is :: "heap \<Rightarrow> error \<Rightarrow> error \<Rightarrow> bool option" where
  "errors_Is h err target =
     (case err of
        None \<Rightarrow> Some (target = None)
      | Some a \<Rightarrow> (case target of None \<Rightarrow> Some False | Some t \<Rightarrow> errors_is h a t))"

subsection \<open>Methods of \<open>*ManagedError\<close>\<close>

definition ManagedError_Error :: "heap \<Rightarrow> addr \<Rightarrow> string option" where
  "ManagedError_Error h e =
     (case load h e of
        None \<Rightarrow> None
      | Some m \<Rightarrow>
          (if Details m \<noteq> ''''
           then Some (''['' @ Type m @ '':'' @ Code m @ ''] '' @ Message m @ '': '' @ Details m)
           else Some (''['' @ Type m @ '':'' @ Code m @ ''] '' @ Message m)))"

definition ManagedError_Unwrap :: "heap \<Rightarrow> addr \<Rightarrow> error option" where
  "ManagedError_Unwrap h e = (case load h e of None \<Rightarrow> None | Some m \<Rightarrow> Some (Cause m))"

definition ManagedError_Is :: "heap \<Rightarrow> addr \<Rightarrow> error \<Rightarrow> bool option" where
  "ManagedError_Is h e target =
     (case load h e of
        None \<Rightarrow> None
      | Some me \<Rightarrow>
          (if target = None then Some False
           else case errors_As h target of
                  None \<Rightarrow> None
                | Some (AsTrue p) \<Rightarrow>
                    (case load h p of
                       None \<Rightarrow> None
                     | Some m \<Rightarrow> Some (Type me = Type m \<and> Code me = Code m))
                | Some AsFalse \<Rightarrow> errors_Is h (Cause me) target))"

text \<open>The method \<open>Error()\<close> called through the interface \<open>error\<close>.\<close>

definition Error :: "heap \<Rightarrow> addr \<Rightarrow> string option" where
  "Error h a =
     (case deref h a of
        None \<Rightarrow> None
      | Some (ErrorString s) \<Rightarrow> Some s
      | Some (WrapError msg b) \<Rightarrow> Some msg
      | Some (Managed m) \<Rightarrow> ManagedError_Error h a)"

subsection \<open>Constructors\<close>

definition NewError :: "heap \<Rightarrow> ErrorType \<Rightarrow> string \<Rightarrow> string \<Rightarrow> heap \<times> addr" where
  "NewError h errType code message =
     alloc h (Managed \<lparr>Code = code, Message = message, Details = '''', Cause = None,
                       Context = Some Map.empty, Type = errType, StatusCode = 0,
                       Retryable = False\<rparr>)"

definition NewErrorWithCause ::
  "heap \<Rightarrow> ErrorType \<Rightarrow> string \<Rightarrow> string \<Rightarrow> error \<Rightarrow> heap \<times> addr" where
  "NewErrorWithCause h errType code message cause =
     alloc h (Managed \<lparr>Code = code, Message = message, Details = '''', Cause = cause,
                       Context = Some Map.empty, Type = errType, StatusCode = 0,
                       Retryable = False\<rparr>)"

subsection \<open>Fluent mutators\<close>

text \<open>Each mutator writes one field of the object behind \<open>e\<close> and returns \<open>e\<close> itself.\<close>

definition WithDetails :: "heap \<Rightarrow> addr \<Rightarrow> string \<Rightarrow> (heap \<times> addr) option" where
  "WithDetails h e details =
     (case load h e of
        None \<Rightarrow> None
      | Some m \<Rightarrow> Some (h[e := Managed (m\<lparr>Details := details\<rparr>)], e))"

definition WithContext :: "heap \<Rightarrow> addr \<Rightarrow> string \<Rightarrow> string \<Rightarrow> (heap \<times> addr) option" where
  "WithContext h e key val =
     (case load h e of
        None \<Rightarrow> None
      | Some m \<Rightarrow>
          (case map_store (if Context m = None then Some Map.empty else Context m) key val of
             None \<Rightarrow> None
           | Some c \<Rightarrow> Some (h[e := Managed (m\<lparr>Context := Some c\<rparr>)], e)))"

definition WithRetryable :: "heap \<Rightarrow> addr \<Rightarrow> bool \<Rightarrow> (heap \<times> addr) option" where
  "WithRetryable h e retryable =
     (case load h e of
        None \<Rightarrow> None
      | Some m \<Rightarrow> Some (h[e := Managed (m\<lparr>Retryable := retryable\<rparr>)], e))"

definition WithStatusCode :: "heap \<Rightarrow> addr \<Rightarrow> int \<Rightarrow> (heap \<times> addr) option" where
  "WithStatusCode h e code =
     (case load h e of
        None \<Rightarrow> None
      | Some m \<Rightarrow> Some (h[e := Managed (m\<lparr>StatusCode := code\<rparr>)], e))"

subsection \<open>Queries over arbitrary errors\<close>

text \<open>
  The three queries take any value a variable of the interface type can hold.
  \<open>Plain err\<close> is a value of type \<open>error\<close> as above: nil, or a pointer to a stored
  object.  \<open>NilManagedError\<close> is the interface that holds a nil \<open>*ManagedError\<close>
  pointer, as \<open>var p *ManagedError; var err error = p\<close> builds it; it is not the nil
  interface.
\<close>

datatype error_value = Plain error | NilManagedError

text \<open>
  \<open>var managedErr *ManagedError; ok := errors.As(err, &managedErr)\<close>: the result
  \<open>ok\<close> together with the pointer the call leaves in \<open>managedErr\<close> (\<open>None\<close> is the nil
  pointer, the variable's initial value).  On \<open>NilManagedError\<close> the library finds the
  dynamic type \<open>*ManagedError\<close> assignable to the target, stores the nil pointer and
  returns true.
\<close>

definition As_ManagedError :: "heap \<Rightarrow> error_value \<Rightarrow> (bool \<times> addr option) option" where
  "As_ManagedError h err =
     (case err of
        NilManagedError \<Rightarrow> Some (True, None)
      | Plain e \<Rightarrow>
          (case errors_As h e of
             None \<Rightarrow> None
           | Some AsFalse \<Rightarrow> Some (False, None)
           | Some (AsTrue p) \<Rightarrow> Some (True, Some p)))"

text \<open>
  \<open>managedErr.f\<close>: reading the field \<open>f\<close> through the pointer \<open>managedErr\<close>.  Through
  the nil pointer the read panics.
\<close>

definition read_field :: "heap \<Rightarrow> addr option \<Rightarrow> (ManagedError \<Rightarrow> 'a) \<Rightarrow> 'a option" where
  "read_field h managedErr f =
     (case managedErr of
        None \<Rightarrow> None
      | Some p \<Rightarrow> (case load h p of None \<Rightarrow> None | Some m \<Rightarrow> Some (f m)))"

definition IsType :: "heap \<Rightarrow> error_value \<Rightarrow> ErrorType \<Rightarrow> bool option" where
  "IsType h err errType =
     (case As_ManagedError h err of
        None \<Rightarrow> None
      | Some (ok, managedErr) \<Rightarrow>
          if ok then read_field h managedErr (\<lambda>m. Type m = errType) else Some False)"

definition IsRetryable :: "heap \<Rightarrow> error_value \<Rightarrow> bool option" where
  "IsRetryable h err =
     (case As_ManagedError h err of
        None \<Rightarrow> None
      | Some (ok, managedErr) \<Rightarrow>
          if ok then read_field h managedErr Retryable else Some False)"

definition GetContext :: "heap \<Rightarrow> error_value \<Rightarrow> (string \<rightharpoonup> string) option option" where
  "GetContext h err =
     (case As_ManagedError h err of
        None \<Rightarrow> None
      | Some (ok, managedErr) \<Rightarrow>
          if ok then read_field h managedErr Context else Some None)"

subsection \<open>Wrapping helpers\<close>

text \<open>
  \<open>fmt.Errorf("%s: %w", message, err)\<close>, the only way the package calls
  \<open>fmt.Errorf\<close>.  With a non-nil \<open>err\<close> the verb \<open>%w\<close> prints \<open>err.Error()\<close> and the
  result is a \<open>*fmt.wrapError\<close> holding the text and \<open>err\<close>.  With a nil \<open>err\<close> the
  verb has no error operand: the library prints \<open>%!w(<nil>)\<close> and the result wraps
  nothing.  It is an \<open>errors.New\<close> value up to Go 1.19 and a \<open>*fmt.wrapError\<close> whose
  wrapped error is nil from Go 1.20 on; \<open>Error\<close>, \<open>Unwrap\<close>, \<open>errors.As\<close> and
  \<open>errors.Is\<close> answer alike on the two, and the store keeps the object
  \<open>ErrorString\<close> for both.
\<close>

definition fmt_Errorf :: "heap \<Rightarrow> string \<Rightarrow> error \<Rightarrow> (heap \<times> addr) option" where
  "fmt_Errorf h message err =
     (case err of
        None \<Rightarrow> Some (alloc h (ErrorString (message @ '': %!w(<nil>)'')))
      | Some a \<Rightarrow>
          (case Error h a of
             None \<Rightarrow> None
           | Some s \<Rightarrow> Some (alloc h (WrapError (message @ '': '' @ s) a))))"

definition Wrap :: "heap \<Rightarrow> error \<Rightarrow> string \<Rightarrow> (heap \<times> addr) option" where
  "Wrap h err message = fmt_Errorf h message err"

text \<open>
  \<open>fmt.Sprintf(format, args...)\<close> belongs to the standard library.  It returns a
  string for every format and every list of operands: a directive it cannot serve is
  printed in a diagnostic form, and the call never fails.  \<open>Wrapf\<close> only hands its
  arguments over, in the order it received them, so the formatter is a parameter of
  the model: \<open>Sprintf format args\<close> is the text the library returns, for operands of
  any type \<open>'x\<close>.
\<close>

definition Wrapf ::
  "(string \<Rightarrow> 'x list \<Rightarrow> string) \<Rightarrow> heap \<Rightarrow> error \<Rightarrow> string \<Rightarrow> 'x list \<Rightarrow> (heap \<times> addr) option"
  where
  "Wrapf Sprintf h err format args = fmt_Errorf h (Sprintf format args) err"

text \<open>
  What the library documents for the plain directives, as far as the package's
  callers use them: operands are strings or integers, the verbs are \<open>%s\<close> (string
  operand), \<open>%d\<close> (integer operand), \<open>%v\<close> (either) and \<open>%%\<close>.
  \<open>Sprintf_fragment format args = Some s\<close> says that \<open>fmt.Sprintf\<close> returns \<open>s\<close> on
  this call; \<open>None\<close> says nothing about the call (another verb, a flag or a width, a
  verb that does not fit its operand, too few or too many operands: there the
  library returns a text that this description leaves open).
\<close>

datatype arg = ArgString string | ArgInt int

definition digit :: "nat \<Rightarrow> char" where
  "digit n = ''0123456789'' ! (n mod 10)"

fun decimal :: "nat \<Rightarrow> string" where
  "decimal n = (if n < 10 then [digit n] else decimal (n div 10) @ [digit n])"

definition itoa :: "int \<Rightarrow> string" where
  "itoa i = (if i < 0 then CHR ''-'' # decimal (nat (- i)) else decimal (nat i))"

fun format_verb :: "char \<Rightarrow> arg \<Rightarrow> string option" where
  "format_verb v (ArgString s) = (if v = CHR ''s'' \<or> v = CHR ''v'' then Some s else None)"
| "format_verb v (ArgInt i) = (if v = CHR ''d'' \<or> v = CHR ''v'' then Some (itoa i) else None)"

fun Sprintf_fragment :: "string \<Rightarrow> arg list \<Rightarrow> string option" where
  "Sprintf_fragment [] args = (if args = [] then Some [] else None)"
| "Sprintf_fragment [c] args = (if c = CHR ''%'' \<or> args \<noteq> [] then None else Some [c])"
| "Sprintf_fragment (c # v # rest) args =
     (if c \<noteq> CHR ''%'' then map_option ((#) c) (Sprintf_fragment (v # rest) args)
      else if v = CHR ''%'' then map_option ((#) CHR ''%'') (Sprintf_fragment rest args)
      else (case args of
              [] \<Rightarrow> None
            | x # xs \<Rightarrow>
                (case format_verb v x of
                   None \<Rightarrow> None
                 | Some s \<Rightarrow> map_option ((@) s) (Sprintf_fragment rest xs))))"

subsection \<open>Chains of fluent calls\<close>

text \<open>
  A caller chains mutators on the pointer a constructor returned.  A chain is a list
  of calls, run left to right; it stops with \<open>None\<close> at the first call that panics.
\<close>

datatype call =
    CallWithDetails string
  | CallWithContext string string
  | CallWithRetryable bool
  | CallWithStatusCode int

fun run_call :: "heap \<Rightarrow> addr \<Rightarrow> call \<Rightarrow> (heap \<times> addr) option" where
  "run_call h e (CallWithDetails details) = WithDetails h e details"
| "run_call h e (CallWithContext key val) = WithContext h e key val"
| "run_call h e (CallWithRetryable retryable) = WithRetryable h e retryable"
| "run_call h e (CallWithStatusCode code) = WithStatusCode h e code"

fun run_calls :: "heap \<Rightarrow> addr \<Rightarrow> call list \<Rightarrow> (heap \<times> addr) option" where
  "run_calls h e [] = Some (h, e)"
| "run_calls h e (c # cs) =
     (case run_call h e c of None \<Rightarrow> None | Some (h', e') \<Rightarrow> run_calls h' e' cs)"

subsection \<open>Well-formed stores and cause chains\<close>

text \<open>
  A \<open>*fmt.wrapError\<close> is immutable and is built from an error that already exists, so
  it always points to an older object: \<open>wrap_ok\<close>.  When in addition no \<open>Cause\<close> field
  is reassigned after construction, every \<open>*ManagedError\<close> points to an older object
  too, and cause chains are acyclic: \<open>heap_ok\<close>.  An \<open>error\<close> value is \<open>valid\<close> in a
  store when it is nil or points into it.
\<close>

definition wrap_ok :: "heap \<Rightarrow> bool" where
  "wrap_ok h = (\<forall>a<length h. case h ! a of WrapError msg b \<Rightarrow> b < a | _ \<Rightarrow> True)"


definition valid :: "'o list \<Rightarrow> error \<Rightarrow> bool" where
  "valid h err = (case err of None \<Rightarrow> True | Some a \<Rightarrow> a < length h)"

text \<open>
  \<open>in_chain h a b\<close>: the object \<open>b\<close> is \<open>a\<close> itself or is reached from \<open>a\<close> by repeated
  \<open>Unwrap\<close>.  \<open>first_managed h a p\<close>: walking from \<open>a\<close>, \<open>p\<close> is the first
  \<open>*ManagedError\<close> met.
\<close>

inductive in_chain :: "heap \<Rightarrow> addr \<Rightarrow> addr \<Rightarrow> bool" for h :: heap where
  chain_here: "a < length h \<Longrightarrow> in_chain h a a"
| chain_step: "errors_Unwrap h a = Some b \<Longrightarrow> in_chain h b c \<Longrightarrow> in_chain h a c"

inductive first_managed :: "heap \<Rightarrow> addr \<Rightarrow> addr \<Rightarrow> bool" for h :: heap where
  first_here: "load h a = Some m \<Longrightarrow> first_managed h a a"
| first_step: "load h a = None \<Longrightarrow> errors_Unwrap h a = Some b \<Longrightarrow> first_managed h b p
     \<Longrightarrow> first_managed h a p"

section \<open>Package \<open>errmgt\<close>, first generation (\<open>errmgt.go\<close>)\<close>

text \<open>
  Names of this package carry the suffix \<open>_root\<close>.  \<open>ErrorType\<close> is a Go \<open>int\<close>, so any
  integer is a value of it; the values of a context map are \<open>interface{}\<close>, here a
  type parameter.
\<close>

type_synonym ErrorType_root = int

definition ValidationError_root :: ErrorType_root where
  "ValidationError_root = 0"

definition NotFoundError_root :: ErrorType_root where
  "NotFoundError_root = 1"

definition PermissionError_root :: ErrorType_root where
  "PermissionError_root = 2"

definition InternalError_root :: ErrorType_root where
  "InternalError_root = 3"

definition ExternalError_root :: ErrorType_root where
  "ExternalError_root = 4"

definition String_root :: "ErrorType_root \<Rightarrow> string" where
  "String_root et =
     (if et = ValidationError_root then ''ValidationError''
      else if et = NotFoundError_root then ''NotFoundError''
      else if et = PermissionError_root then ''PermissionError''
      else if et = InternalError_root then ''InternalError''
      else if et = ExternalError_root then ''ExternalError''
      else ''UnknownError'')"

record 'v ManagedError_root =
  Type_root :: ErrorType_root
  Message_root :: string
  Cause_root :: error
  Context_root :: "(string \<rightharpoonup> 'v) option"

datatype 'v object_root =
    ErrorString_root string
  | WrapError_root string addr
  | Managed_root "'v ManagedError_root"

definition load_root :: "'v object_root list \<Rightarrow> addr \<Rightarrow> 'v ManagedError_root option" where
  "load_root h p = (case deref h p of Some (Managed_root m) \<Rightarrow> Some m | _ \<Rightarrow> None)"

text \<open>
  \<open>Error()\<close> through the interface.  \<open>(*ManagedError).Error\<close> formats the cause with
  \<open>%v\<close>, which calls the cause's own \<open>Error()\<close>; on a cyclic chain that call never
  returns.
\<close>

partial_function (option) Error_root :: "'v object_root list \<Rightarrow> addr \<Rightarrow> string option" where
  "Error_root h a =
     (case deref h a of
        None \<Rightarrow> None
      | Some (ErrorString_root s) \<Rightarrow> Some s
      | Some (WrapError_root msg b) \<Rightarrow> Some msg
      | Some (Managed_root me) \<Rightarrow>
          (case Cause_root me of
             Some c \<Rightarrow>
               do {
                 s \<leftarrow> Error_root h c;
                 Some (''['' @ String_root (Type_root me) @ ''] '' @ Message_root me
                       @ '': '' @ s)
               }
           | None \<Rightarrow> Some (''['' @ String_root (Type_root me) @ ''] '' @ Message_root me)))"

declare Error_root.simps [code]

definition Unwrap_root :: "'v object_root list \<Rightarrow> addr \<Rightarrow> error option" where
  "Unwrap_root h me = (case load_root h me of None \<Rightarrow> None | Some m \<Rightarrow> Some (Cause_root m))"

definition New_root ::
  "'v object_root list \<Rightarrow> ErrorType_root \<Rightarrow> string \<Rightarrow> 'v object_root list \<times> addr" where
  "New_root h errorType message =
     alloc h (Managed_root \<lparr>Type_root = errorType, Message_root = message, Cause_root = None,
                            Context_root = Some Map.empty\<rparr>)"

definition Wrap_root ::
  "'v object_root list \<Rightarrow> error \<Rightarrow> ErrorType_root \<Rightarrow> string \<Rightarrow> 'v object_root list \<times> addr" where
  "Wrap_root h err errorType message =
     alloc h (Managed_root \<lparr>Type_root = errorType, Message_root = message, Cause_root = err,
                            Context_root = Some Map.empty\<rparr>)"

definition WithContext_root ::
  "'v object_root list \<Rightarrow> addr \<Rightarrow> string \<Rightarrow> 'v \<Rightarrow> ('v object_root list \<times> addr) option" where
  "WithContext_root h me key val =
     (case load_root h me of
        None \<Rightarrow> None
      | Some m \<Rightarrow>
          (case map_store (Context_root m) key val of
             None \<Rightarrow> None
           | Some c \<Rightarrow> Some (h[me := Managed_root (m\<lparr>Context_root := Some c\<rparr>)], me)))"

definition GetContext_root :: "'v object_root list \<Rightarrow> addr \<Rightarrow> string \<Rightarrow> 'v option option" where
  "GetContext_root h me key =
     (case load_root h me of
        None \<Rightarrow> None
      | Some m \<Rightarrow> Some (case Context_root m of None \<Rightarrow> None | Some c \<Rightarrow> c key))"

definition IsType_root :: "'v object_root list \<Rightarrow> addr \<Rightarrow> ErrorType_root \<Rightarrow> bool option" where
  "IsType_root h me errorType =
     (case load_root h me of None \<Rightarrow> None | Some m \<Rightarrow> Some (Type_root m = errorType))"

fun run_calls_root ::
  "'v object_root list \<Rightarrow> addr \<Rightarrow> (string \<times> 'v) list \<Rightarrow> ('v object_root list \<times> addr) option" where
  "run_calls_root h me [] = Some (h, me)"
| "run_calls_root h me ((key, val) # kvs) =
     (case WithContext_root h me key val of
        None \<Rightarrow> None
      | Some (h', me') \<Rightarrow> run_calls_root h' me' kvs)"

definition heap_ok_root :: "'v object_root list \<Rightarrow> bool" where
  "heap_ok_root h =
     (\<forall>a<length h.
        case h ! a of
          ErrorString_root s \<Rightarrow> True
        | WrapError_root msg b \<Rightarrow> b < a
        | Managed_root m \<Rightarrow> (case Cause_root m of None \<Rightarrow> True | Some c \<Rightarrow> c < a))"

section \<open>Example stores\<close>

text \<open>Concrete stores on which the theorems below are exercised.\<close>

definition store1 :: heap where
  "store1 =
     [ErrorString ''timeout'',
      Managed \<lparr>Code = ''api_timeout'', Message = ''API timeout'', Details = '''',
               Cause = Some 0, Context = Some [''host'' \<mapsto> ''a''], Type = ExternalError,
               StatusCode = 0, Retryable = True\<rparr>,
      WrapError ''call failed: [external:api_timeout] API timeout'' 1]"

definition store1_root :: "int object_root list" where
  "store1_root =
     [Managed_root \<lparr>Type_root = ValidationError_root, Message_root = ''email is required'',
                     Cause_root = None, Context_root = Some [''user_id'' \<mapsto> 7]\<rparr>,
      ErrorString_root ''connection timeout'',
      Managed_root \<lparr>Type_root = InternalError_root, Message_root = ''query failed'',
                     Cause_root = Some 1, Context_root = Some Map.empty\<rparr>]"

definition store2a :: heap where
  "store2a =
     [Managed \<lparr>Code = ''invalid_email'', Message = ''a'', Details = '''', Cause = None,
               Context = Some Map.empty, Type = ValidationError, StatusCode = 0,
               Retryable = False\<rparr>]"

definition store2b :: heap where
  "store2b =
     store2a @
     [Managed \<lparr>Code = ''invalid_email'', Message = ''b'', Details = '''', Cause = None,
               Context = Some Map.empty, Type = ValidationError, StatusCode = 0,
               Retryable = False\<rparr>]"

definition store2d :: heap where
  "store2d =
     store2a @
     [Managed \<lparr>Code = ''invalid_email'', Message = ''x'', Details = '''', Cause = None,
               Context = Some Map.empty, Type = BusinessError, StatusCode = 0,
               Retryable = False\<rparr>]"


definition store4 :: heap where
  "store4 = [ErrorString ''file not found'', ErrorString ''connection failed'']"

definition store5 :: heap where
  "store5 =
     [Managed \<lparr>Code = ''invalid_email'', Message = ''Email format is invalid'',
               Details = ''Must contain @'', Cause = None,
               Context = Some [''field'' \<mapsto> ''email''], Type = ValidationError,
               StatusCode = 400, Retryable = False\<rparr>]"

section \<open>Properties of the chain inspection\<close>

lemma wrap_okD: "wrap_ok h \<Longrightarrow> a < length h \<Longrightarrow> h ! a = WrapError msg b \<Longrightarrow> b < a"
  by (auto simp: wrap_ok_def split: object.splits)

lemma errors_as_invalid: "deref h a = None \<Longrightarrow> errors_as h a = None"
  by (subst errors_as.simps) simp

lemma errors_as_ErrorString: "deref h a = Some (ErrorString s) \<Longrightarrow> errors_as h a = Some AsFalse"
  by (subst errors_as.simps) simp

lemma errors_as_WrapError: "deref h a = Some (WrapError msg b) \<Longrightarrow> errors_as h a = errors_as h b"
  by (subst errors_as.simps) simp

lemma errors_as_Managed: "deref h a = Some (Managed m) \<Longrightarrow> errors_as h a = Some (AsTrue a)"
  by (subst errors_as.simps) simp

lemma deref_cases:
  obtains "deref h a = None" "length h \<le> a"
  | s where "deref h a = Some (ErrorString s)" "a < length h"
  | msg b where "deref h a = Some (WrapError msg b)" "a < length h" "h ! a = WrapError msg b"
  | m where "deref h a = Some (Managed m)" "a < length h"
  by (cases "a < length h"; cases "h ! a") (auto simp: deref_def)

lemma errors_as_total:
  "wrap_ok h \<Longrightarrow> a < length h \<Longrightarrow> \<exists>r. errors_as h a = Some r"
proof (induction a rule: less_induct)
  case (less a)
  show ?case
  proof (cases h a rule: deref_cases)
    case 1
    with less.prems show ?thesis by simp
  next
    case (2 s)
    then show ?thesis by (simp add: errors_as_ErrorString)
  next
    case (3 msg b)
    with less.prems have "b < a" by (auto dest: wrap_okD)
    with less have "\<exists>r. errors_as h b = Some r" by simp
    with 3 show ?thesis by (simp add: errors_as_WrapError)
  next
    case (4 m)
    then show ?thesis by (simp add: errors_as_Managed)
  qed
qed

lemma errors_as_AsTrue:
  "wrap_ok h \<Longrightarrow> errors_as h a = Some (AsTrue p) \<Longrightarrow> first_managed h a p"
proof (induction a rule: less_induct)
  case (less a)
  show ?case
  proof (cases h a rule: deref_cases)
    case 1
    with less.prems show ?thesis by (simp add: errors_as_invalid)
  next
    case (2 s)
    with less.prems show ?thesis by (simp add: errors_as_ErrorString)
  next
    case (3 msg b)
    with less.prems have "b < a" by (auto dest: wrap_okD)
    moreover from 3 less.prems have "errors_as h b = Some (AsTrue p)"
      by (simp add: errors_as_WrapError)
    ultimately have fm: "first_managed h b p" using less by simp
    from 3 have "load h a = None" and "errors_Unwrap h a = Some b"
      by (simp_all add: load_def errors_Unwrap_def)
    then show ?thesis using fm by (rule first_step)
  next
    case (4 m)
    with less.prems have "p = a" by (simp add: errors_as_Managed)
    moreover from 4 have "load h a = Some m" by (simp add: load_def)
    ultimately show ?thesis by (auto intro: first_here)
  qed
qed

lemma load_Some_deref: "load h a = Some m \<longleftrightarrow> deref h a = Some (Managed m)"
  by (auto simp: load_def split: option.splits object.splits)

lemma first_managed_errors_as:
  "first_managed h a p \<Longrightarrow> errors_as h a = Some (AsTrue p)"
proof (induction rule: first_managed.induct)
  case (first_here a m)
  then show ?case by (simp add: load_Some_deref errors_as_Managed)
next
  case (first_step a b p)
  show ?case
  proof (cases h a rule: deref_cases)
    case 1
    with first_step.hyps show ?thesis by (simp add: errors_Unwrap_def)
  next
    case (2 s)
    with first_step.hyps show ?thesis by (simp add: errors_Unwrap_def)
  next
    case (3 msg c)
    with first_step.hyps have "c = b" by (simp add: errors_Unwrap_def)
    with 3 first_step.IH show ?thesis by (simp add: errors_as_WrapError)
  next
    case (4 m)
    with first_step.hyps show ?thesis by (simp add: load_def)
  qed
qed

lemma first_managed_in_chain:
  "first_managed h a p \<Longrightarrow> in_chain h a p \<and> load h p \<noteq> None"
proof (induction rule: first_managed.induct)
  case (first_here a m)
  then have "a < length h" by (auto simp: load_def deref_def split: if_splits)
  with first_here show ?case by (auto intro: chain_here)
next
  case (first_step a b p)
  from first_step.hyps(2) first_step.IH[THEN conjunct1] have "in_chain h a p"
    by (rule chain_step)
  with first_step.IH show ?case by simp
qed

lemma in_chain_first_managed:
  "in_chain h a p \<Longrightarrow> load h p \<noteq> None \<Longrightarrow> \<exists>q. first_managed h a q"
proof (induction rule: in_chain.induct)
  case (chain_here a)
  then show ?case by (auto intro: first_here)
next
  case (chain_step a b c)
  then obtain q where q: "first_managed h b q" by auto
  show ?case
  proof (cases "load h a")
    case None
    from None chain_step.hyps(1) q have "first_managed h a q" by (rule first_step)
    then show ?thesis by blast
  next
    case (Some m)
    then show ?thesis by (auto intro: first_here)
  qed
qed

lemma errors_as_AsFalse_iff:
  assumes "wrap_ok h" and "a < length h"
  shows "errors_as h a = Some AsFalse \<longleftrightarrow> (\<forall>p. in_chain h a p \<longrightarrow> load h p = None)"
proof
  assume f: "errors_as h a = Some AsFalse"
  show "\<forall>p. in_chain h a p \<longrightarrow> load h p = None"
  proof (intro allI impI)
    fix p assume "in_chain h a p"
    show "load h p = None"
    proof (rule ccontr)
      assume "load h p \<noteq> None"
      with \<open>in_chain h a p\<close> obtain q where "first_managed h a q"
        by (auto dest: in_chain_first_managed)
      then have "errors_as h a = Some (AsTrue q)" by (rule first_managed_errors_as)
      with f show False by simp
    qed
  qed
next
  assume n: "\<forall>p. in_chain h a p \<longrightarrow> load h p = None"
  from assms obtain r where r: "errors_as h a = Some r" by (auto dest: errors_as_total)
  show "errors_as h a = Some AsFalse"
  proof (cases r)
    case AsFalse
    with r show ?thesis by simp
  next
    case (AsTrue p)
    with r assms have "first_managed h a p" by (auto intro: errors_as_AsTrue)
    then have "in_chain h a p \<and> load h p \<noteq> None" by (rule first_managed_in_chain)
    with n show ?thesis by auto
  qed
qed

lemma load_alloc_new: "load (h @ [Managed m]) (length h) = Some m"
  by (simp add: load_def deref_def)

lemma load_update_same:
  "load h e = Some m \<Longrightarrow> load (h[e := Managed m']) e = Some m'"
  by (auto simp: load_def deref_def split: if_splits)

lemma errors_As_Managed: "load h p = Some m \<Longrightarrow> errors_As h (Some p) = Some (AsTrue p)"
  by (simp add: errors_As_def load_Some_deref errors_as_Managed)

subsection \<open>Retryability of arbitrary errors\<close>

text \<open>
  Claim C2.  \<open>IsRetryable\<close> returns for every error value that is nil or points to a
  stored object.  It returns false when no object of the cause chain is a
  \<open>*ManagedError\<close>; when the chain holds one, it returns the \<open>Retryable\<close> flag of
  the first one met.  A fresh error marked with \<open>WithRetryable(true)\<close> is retryable.
  The function is not total over all error values: on the interface that holds a nil
  \<open>*ManagedError\<close>, \<open>errors.As\<close> succeeds with the nil pointer and reading the flag
  through it panics, in every store.
\<close>

theorem IsRetryable_chain:
  assumes "wrap_ok h" and "valid h err"
  shows "(\<exists>r. IsRetryable h (Plain err) = Some r)
     \<and> ((\<forall>a p. err = Some a \<longrightarrow> in_chain h a p \<longrightarrow> load h p = None)
          \<longrightarrow> IsRetryable h (Plain err) = Some False)
     \<and> (\<forall>a p. err = Some a \<longrightarrow> in_chain h a p \<longrightarrow> load h p \<noteq> None
          \<longrightarrow> (\<exists>q m. first_managed h a q \<and> load h q = Some m
                  \<and> IsRetryable h (Plain err) = Some (Retryable m)))
     \<and> (\<forall>h0 k c msg. \<exists>h2.
           WithRetryable (fst (NewError h0 k c msg)) (snd (NewError h0 k c msg)) True
             = Some (h2, snd (NewError h0 k c msg))
           \<and> IsRetryable h2 (Plain (Some (snd (NewError h0 k c msg)))) = Some True)
     \<and> IsRetryable h NilManagedError = None"
proof (intro conjI allI impI)
  show "\<exists>r. IsRetryable h (Plain err) = Some r"
  proof (cases err)
    case None
    then show ?thesis by (auto simp: IsRetryable_def As_ManagedError_def errors_As_def)
  next
    case (Some a)
    with assms have len: "a < length h" by (simp add: valid_def)
    with assms obtain r where r: "errors_as h a = Some r" by (auto dest: errors_as_total)
    show ?thesis
    proof (cases r)
      case AsFalse
      with r Some show ?thesis by (auto simp: IsRetryable_def As_ManagedError_def errors_As_def)
    next
      case (AsTrue p)
      with r assms have "first_managed h a p" by (auto intro: errors_as_AsTrue)
      then have "load h p \<noteq> None" by (auto dest: first_managed_in_chain)
      with r AsTrue Some show ?thesis
        by (auto simp: IsRetryable_def As_ManagedError_def read_field_def errors_As_def)
    qed
  qed
next
  assume n: "\<forall>a p. err = Some a \<longrightarrow> in_chain h a p \<longrightarrow> load h p = None"
  show "IsRetryable h (Plain err) = Some False"
  proof (cases err)
    case None
    then show ?thesis by (simp add: IsRetryable_def As_ManagedError_def errors_As_def)
  next
    case (Some a)
    with assms have len: "a < length h" by (simp add: valid_def)
    from n Some have "\<forall>p. in_chain h a p \<longrightarrow> load h p = None" by simp
    with assms(1) len have "errors_as h a = Some AsFalse" by (simp add: errors_as_AsFalse_iff)
    with Some show ?thesis by (simp add: IsRetryable_def As_ManagedError_def errors_As_def)
  qed
next
  fix a p
  assume e: "err = Some a" and c: "in_chain h a p" and l: "load h p \<noteq> None"
  from c l obtain q where q: "first_managed h a q" by (auto dest: in_chain_first_managed)
  then have "load h q \<noteq> None" by (auto dest: first_managed_in_chain)
  then obtain m where m: "load h q = Some m" by auto
  from q have "errors_as h a = Some (AsTrue q)" by (rule first_managed_errors_as)
  with e m have "IsRetryable h (Plain err) = Some (Retryable m)"
    by (simp add: IsRetryable_def As_ManagedError_def read_field_def errors_As_def)
  with q m show "\<exists>q m. first_managed h a q \<and> load h q = Some m
      \<and> IsRetryable h (Plain err) = Some (Retryable m)" by blast
next
  fix h0 :: heap and k c msg
  let ?m = "\<lparr>Code = c, Message = msg, Details = '''', Cause = None,
             Context = Some Map.empty, Type = k, StatusCode = 0, Retryable = False\<rparr>"
  let ?h1 = "h0 @ [Managed ?m]"
  let ?p = "length h0"
  have n: "NewError h0 k c msg = (?h1, ?p)" by (simp add: NewError_def alloc_def)
  have l: "load ?h1 ?p = Some ?m" by (rule load_alloc_new)
  let ?h2 = "?h1[?p := Managed (?m\<lparr>Retryable := True\<rparr>)]"
  from l have w: "WithRetryable ?h1 ?p True = Some (?h2, ?p)" by (simp add: WithRetryable_def)
  from l have "load ?h2 ?p = Some (?m\<lparr>Retryable := True\<rparr>)" by (rule load_update_same)
  then have "IsRetryable ?h2 (Plain (Some ?p)) = Some True"
    by (simp add: IsRetryable_def As_ManagedError_def read_field_def errors_As_Managed)
  with w n show "\<exists>h2. WithRetryable (fst (NewError h0 k c msg)) (snd (NewError h0 k c msg)) True
             = Some (h2, snd (NewError h0 k c msg))
           \<and> IsRetryable h2 (Plain (Some (snd (NewError h0 k c msg)))) = Some True"
    by simp
next
  show "IsRetryable h NilManagedError = None"
    by (simp add: IsRetryable_def As_ManagedError_def read_field_def)
qed

lemma wrap_ok_store1: "wrap_ok store1"
  by (simp add: wrap_ok_def store1_def less_Suc_eq)

theorem IsRetryable_chain_witness:
  "wrap_ok store1 \<and> valid store1 (Some 2) \<and> valid store1 (Some 0)
   \<and> IsRetryable store1 (Plain (Some 2)) = Some True
   \<and> IsRetryable store1 (Plain (Some 0)) = Some False
   \<and> IsRetryable store1 NilManagedError = None"
proof -
  have v2: "valid store1 (Some 2)" and v0: "valid store1 (Some 0)"
    by (simp_all add: valid_def store1_def)
  have c: "in_chain store1 2 1"
    by (rule chain_step[where b = 1])
       (simp_all add: errors_Unwrap_def deref_def store1_def chain_here)
  have l: "load store1 1 \<noteq> None" by (simp add: load_def deref_def store1_def)
  from IsRetryable_chain[OF wrap_ok_store1 v2] c l
  obtain q m where "first_managed store1 2 q" "load store1 q = Some m"
    "IsRetryable store1 (Plain (Some 2)) = Some (Retryable m)" by blast
  have r2: "IsRetryable store1 (Plain (Some 2)) = Some True" by code_simp
  have "\<forall>a p. Some 0 = Some a \<longrightarrow> in_chain store1 a p \<longrightarrow> load store1 p = None"
  proof (intro allI impI)
    fix a p assume "Some (0::nat) = Some a" and ic: "in_chain store1 a p"
    then have "a = 0" by simp
    with ic have "p = 0"
      by (auto simp: errors_Unwrap_def deref_def store1_def elim: in_chain.cases)
    then show "load store1 p = None" by (simp add: load_def deref_def store1_def)
  qed
  with IsRetryable_chain[OF wrap_ok_store1 v0]
  have r0: "IsRetryable store1 (Plain (Some 0)) = Some False" by blast
  from IsRetryable_chain[OF wrap_ok_store1 v0]
  have rn: "IsRetryable store1 NilManagedError = None" by blast
  from wrap_ok_store1 v2 v0 r2 r0 rn show ?thesis by simp
qed

text \<open>
  Claim C2 as stated asks for a result on every error value.  The call on an error
  value that holds a nil \<open>*ManagedError\<close> has none: it panics.
\<close>

theorem IsRetryable_nil_pointer_counterexample:
  "IsRetryable [] NilManagedError = None"
  by (simp add: IsRetryable_def As_ManagedError_def read_field_def)

subsection \<open>Context of arbitrary errors\<close>

text \<open>
  Claim C4.  \<open>GetContext\<close> returns for every error value that is nil or points to a
  stored object.  When no object of the cause chain is a \<open>*ManagedError\<close> it returns
  the nil map, which is not the empty map; when the chain holds one, it returns the
  \<open>Context\<close> field of the first one met.  The function is not total over all error
  values: on the interface that holds a nil \<open>*ManagedError\<close>, \<open>errors.As\<close> succeeds
  with the nil pointer and reading the context through it panics, in every store.
\<close>

theorem GetContext_chain:
  assumes "wrap_ok h" and "valid h err"
  shows "(\<exists>r. GetContext h (Plain err) = Some r)
     \<and> ((\<forall>a p. err = Some a \<longrightarrow> in_chain h a p \<longrightarrow> load h p = None)
          \<longrightarrow> GetContext h (Plain err) = Some None
              \<and> GetContext h (Plain err) \<noteq> Some (Some Map.empty))
     \<and> (\<forall>a p. err = Some a \<longrightarrow> in_chain h a p \<longrightarrow> load h p \<noteq> None
          \<longrightarrow> (\<exists>q m. first_managed h a q \<and> load h q = Some m
                  \<and> GetContext h (Plain err) = Some (Context m)))
     \<and> GetContext h NilManagedError = None"
proof (intro conjI allI impI)
  show "\<exists>r. GetContext h (Plain err) = Some r"
  proof (cases err)
    case None
    then show ?thesis by (auto simp: GetContext_def As_ManagedError_def errors_As_def)
  next
    case (Some a)
    with assms have len: "a < length h" by (simp add: valid_def)
    with assms obtain r where r: "errors_as h a = Some r" by (auto dest: errors_as_total)
    show ?thesis
    proof (cases r)
      case AsFalse
      with r Some show ?thesis by (auto simp: GetContext_def As_ManagedError_def errors_As_def)
    next
      case (AsTrue p)
      with r assms have "first_managed h a p" by (auto intro: errors_as_AsTrue)
      then have "load h p \<noteq> None" by (auto dest: first_managed_in_chain)
      with r AsTrue Some show ?thesis
        by (auto simp: GetContext_def As_ManagedError_def read_field_def errors_As_def)
    qed
  qed
next
  assume n: "\<forall>a p. err = Some a \<longrightarrow> in_chain h a p \<longrightarrow> load h p = None"
  show "GetContext h (Plain err) = Some None"
  proof (cases err)
    case None
    then show ?thesis by (simp add: GetContext_def As_ManagedError_def errors_As_def)
  next
    case (Some a)
    with assms have len: "a < length h" by (simp add: valid_def)
    from n Some have "\<forall>p. in_chain h a p \<longrightarrow> load h p = None" by simp
    with assms(1) len have "errors_as h a = Some AsFalse" by (simp add: errors_as_AsFalse_iff)
    with Some show ?thesis by (simp add: GetContext_def As_ManagedError_def errors_As_def)
  qed
  then show "GetContext h (Plain err) \<noteq> Some (Some Map.empty)" by simp
next
  fix a p
  assume e: "err = Some a" and c: "in_chain h a p" and l: "load h p \<noteq> None"
  from c l obtain q where q: "first_managed h a q" by (auto dest: in_chain_first_managed)
  then have "load h q \<noteq> None" by (auto dest: first_managed_in_chain)
  then obtain m where m: "load h q = Some m" by auto
  from q have "errors_as h a = Some (AsTrue q)" by (rule first_managed_errors_as)
  with e m have "GetContext h (Plain err) = Some (Context m)"
    by (simp add: GetContext_def As_ManagedError_def read_field_def errors_As_def)
  with q m show "\<exists>q m. first_managed h a q \<and> load h q = Some m
      \<and> GetContext h (Plain err) = Some (Context m)" by blast
next
  show "GetContext h NilManagedError = None"
    by (simp add: GetContext_def As_ManagedError_def read_field_def)
qed

theorem GetContext_chain_witness:
  "wrap_ok store1 \<and> valid store1 (Some 2) \<and> valid store1 (Some 0) \<and> valid store1 None
   \<and> GetContext store1 (Plain (Some 2)) = Some (Some [''host'' \<mapsto> ''a''])
   \<and> GetContext store1 (Plain (Some 0)) = Some None
   \<and> GetContext store1 (Plain None) = Some None
   \<and> GetContext store1 NilManagedError = None"
proof -
  have v2: "valid store1 (Some 2)" and v0: "valid store1 (Some 0)" and vn: "valid store1 None"
    by (simp_all add: valid_def store1_def)
  have fm: "first_managed store1 2 1"
    by (rule first_step[where b = 1])
       (auto simp: load_def errors_Unwrap_def deref_def store1_def intro: first_here)
  then have c: "in_chain store1 2 1" and l: "load store1 1 \<noteq> None"
    by (auto dest: first_managed_in_chain)
  from GetContext_chain[OF wrap_ok_store1 v2] c l
  obtain q m where q: "first_managed store1 2 q" and m: "load store1 q = Some m"
    and g: "GetContext store1 (Plain (Some 2)) = Some (Context m)" by blast
  from q have "errors_as store1 2 = Some (AsTrue q)" by (rule first_managed_errors_as)
  moreover from fm have "errors_as store1 2 = Some (AsTrue 1)" by (rule first_managed_errors_as)
  ultimately have "q = 1" by simp
  with m have "Context m = Some [''host'' \<mapsto> ''a'']"
    by (auto simp: load_def deref_def store1_def)
  with g have g2: "GetContext store1 (Plain (Some 2)) = Some (Some [''host'' \<mapsto> ''a''])"
    by simp
  have "\<forall>a p. Some 0 = Some a \<longrightarrow> in_chain store1 a p \<longrightarrow> load store1 p = None"
  proof (intro allI impI)
    fix a p assume "Some (0::nat) = Some a" and ic: "in_chain store1 a p"
    then have "a = 0" by simp
    with ic have "p = 0"
      by (auto simp: errors_Unwrap_def deref_def store1_def elim: in_chain.cases)
    then show "load store1 p = None" by (simp add: load_def deref_def store1_def)
  qed
  with GetContext_chain[OF wrap_ok_store1 v0]
  have g0: "GetContext store1 (Plain (Some 0)) = Some None" by blast
  from GetContext_chain[OF wrap_ok_store1 vn]
  have gn: "GetContext store1 (Plain None) = Some None" by simp
  from GetContext_chain[OF wrap_ok_store1 vn]
  have gp: "GetContext store1 NilManagedError = None" by blast
  from wrap_ok_store1 v2 v0 vn g2 g0 gn gp show ?thesis by simp
qed

text \<open>
  Claim C4 as stated asks for a result on every error value.  The call on an error
  value that holds a nil \<open>*ManagedError\<close> has none: it panics.
\<close>

theorem GetContext_nil_pointer_counterexample:
  "GetContext [] NilManagedError = None"
  by (simp add: GetContext_def As_ManagedError_def read_field_def)

section \<open>Properties of construction and mutation\<close>

lemma NewError_eq:
  "NewError h k c msg =
     (h @ [Managed \<lparr>Code = c, Message = msg, Details = '''', Cause = None,
                     Context = Some Map.empty, Type = k, StatusCode = 0, Retryable = False\<rparr>],
      length h)"
  by (simp add: NewError_def alloc_def)

lemma NewErrorWithCause_eq:
  "NewErrorWithCause h k c msg cause =
     (h @ [Managed \<lparr>Code = c, Message = msg, Details = '''', Cause = cause,
                     Context = Some Map.empty, Type = k, StatusCode = 0, Retryable = False\<rparr>],
      length h)"
  by (simp add: NewErrorWithCause_def alloc_def)

lemma load_alloc_old: "a < length h \<Longrightarrow> load (h @ [obj]) a = load h a"
  by (simp add: load_def deref_def nth_append)

lemma deref_alloc_old: "a < length h \<Longrightarrow> deref (h @ [obj]) a = deref h a"
  by (simp add: deref_def nth_append)

lemma deref_alloc_new: "deref (h @ [obj]) (length h) = Some obj"
  by (simp add: deref_def)


subsection \<open>The cause survives construction\<close>

text \<open>
  Claim C7.  \<open>Unwrap\<close> on the result of \<open>NewErrorWithCause\<close> returns the very error
  value that was passed as cause: the same pointer, whose object the constructor left
  as it was.  \<open>Unwrap\<close> on the result of \<open>NewError\<close> returns nil.
\<close>

theorem Unwrap_NewErrorWithCause:
  "ManagedError_Unwrap (fst (NewErrorWithCause h k c msg cause))
       (snd (NewErrorWithCause h k c msg cause)) = Some cause
   \<and> errors_Unwrap (fst (NewErrorWithCause h k c msg cause))
       (snd (NewErrorWithCause h k c msg cause)) = cause
   \<and> (\<forall>a. cause = Some a \<longrightarrow> a < length h \<longrightarrow>
         deref (fst (NewErrorWithCause h k c msg cause)) a = deref h a)
   \<and> ManagedError_Unwrap (fst (NewError h k c msg)) (snd (NewError h k c msg)) = Some None
   \<and> errors_Unwrap (fst (NewError h k c msg)) (snd (NewError h k c msg)) = None"
  by (simp add: NewError_eq NewErrorWithCause_eq ManagedError_Unwrap_def errors_Unwrap_def
      load_alloc_new deref_alloc_new deref_alloc_old)

theorem Unwrap_NewErrorWithCause_witness:
  "ManagedError_Unwrap
       (fst (NewErrorWithCause store1 SystemError ''db_connection''
               ''Database connection failed'' (Some 0)))
       (snd (NewErrorWithCause store1 SystemError ''db_connection''
               ''Database connection failed'' (Some 0))) = Some (Some 0)
   \<and> (0::nat) < length store1
   \<and> deref (fst (NewErrorWithCause store1 SystemError ''db_connection''
               ''Database connection failed'' (Some 0))) 0 = Some (ErrorString ''timeout'')"
proof -
  have len: "(0::nat) < length store1" by (simp add: store1_def)
  have d: "deref store1 0 = Some (ErrorString ''timeout'')" by (simp add: deref_def store1_def)
  from Unwrap_NewErrorWithCause[of store1 SystemError "''db_connection''"
      "''Database connection failed''" "Some 0"] len d
  show ?thesis by simp
qed

subsection \<open>The message a constructor stores\<close>

text \<open>
  Claim C5, as the code has it.  Every constructor of either package stores the
  message it is given, unchanged and unchecked; the stored message is empty exactly
  when the caller passes the empty string.
\<close>

theorem constructors_store_message:
  "map_option Message (load (fst (NewError h k c msg)) (snd (NewError h k c msg))) = Some msg
   \<and> map_option Message (load (fst (NewErrorWithCause h k c msg cause))
         (snd (NewErrorWithCause h k c msg cause))) = Some msg
   \<and> map_option Message_root (load_root (fst (New_root g t msg)) (snd (New_root g t msg)))
       = Some msg
   \<and> map_option Message_root (load_root (fst (Wrap_root g cause t msg))
         (snd (Wrap_root g cause t msg))) = Some msg"
  by (simp add: NewError_eq NewErrorWithCause_eq load_alloc_new New_root_def Wrap_root_def
      alloc_def load_root_def deref_def)

theorem constructors_store_message_witness:
  "map_option Message
     (load (fst (NewError [] ValidationError ''invalid_input'' ''Input validation failed''))
           (snd (NewError [] ValidationError ''invalid_input'' ''Input validation failed'')))
     = Some ''Input validation failed''"
  by (rule constructors_store_message[THEN conjunct1])

text \<open>
  The claim as written fails at the empty message: \<open>NewError\<close> accepts it and the
  resulting error has an empty \<open>Message\<close>.
\<close>

theorem empty_message_counterexample:
  "map_option Message
     (load (fst (NewError [] ValidationError ''invalid_input'' ''''))
           (snd (NewError [] ValidationError ''invalid_input'' ''''))) = Some ''''"
  by (simp add: NewError_def alloc_def load_def deref_def)

subsection \<open>Writing the context\<close>

lemma WithContext_eq:
  "load h e = Some m \<Longrightarrow>
   WithContext h e key val =
     Some (h[e := Managed (m\<lparr>Context :=
              Some ((case Context m of None \<Rightarrow> Map.empty | Some c \<Rightarrow> c)(key \<mapsto> val))\<rparr>)], e)"
  by (simp add: WithContext_def map_store_def split: option.splits)

lemma load_root_update_same:
  "load_root g p = Some r \<Longrightarrow> load_root (g[p := Managed_root r']) p = Some r'"
  by (auto simp: load_root_def deref_def split: if_splits)

lemma WithContext_root_eq:
  "load_root g p = Some r \<Longrightarrow> Context_root r = Some c \<Longrightarrow>
   WithContext_root g p key val =
     Some (g[p := Managed_root (r\<lparr>Context_root := Some (c(key \<mapsto> val))\<rparr>)], p)"
  by (simp add: WithContext_root_def map_store_def)

text \<open>
  Claim C9.  Two calls of \<open>WithContext\<close> with the same key leave the context with the
  second value under that key and every other key as it was before the two calls.  A
  context is a map, so the key has this one entry.  In the first generation the context
  must be initialised, as it is on every error a constructor returns; the v1 method
  initialises a nil context itself.
\<close>

theorem WithContext_last_write_wins:
  "(load h e = Some m \<longrightarrow>
      (\<exists>h1 h2 m2 c2.
         WithContext h e key v1 = Some (h1, e) \<and> WithContext h1 e key v2 = Some (h2, e)
         \<and> load h2 e = Some m2 \<and> Context m2 = Some c2 \<and> c2 key = Some v2
         \<and> (\<forall>k. k \<noteq> key \<longrightarrow> c2 k = (case Context m of None \<Rightarrow> None | Some c \<Rightarrow> c k))))
   \<and> (load_root g p = Some r \<longrightarrow> Context_root r = Some c0 \<longrightarrow>
      (\<exists>g1 g2 r2 c2.
         WithContext_root g p key w1 = Some (g1, p) \<and> WithContext_root g1 p key w2 = Some (g2, p)
         \<and> load_root g2 p = Some r2 \<and> Context_root r2 = Some c2 \<and> c2 key = Some w2
         \<and> (\<forall>k. k \<noteq> key \<longrightarrow> c2 k = c0 k)))"
proof (intro conjI impI)
  assume l: "load h e = Some m"
  define c where "c = (case Context m of None \<Rightarrow> Map.empty | Some c \<Rightarrow> c)"
  define m1 where "m1 = m\<lparr>Context := Some (c(key \<mapsto> v1))\<rparr>"
  define m2 where "m2 = m1\<lparr>Context := Some (c(key \<mapsto> v1, key \<mapsto> v2))\<rparr>"
  define h1 where "h1 = h[e := Managed m1]"
  define h2 where "h2 = h1[e := Managed m2]"
  from l have w1: "WithContext h e key v1 = Some (h1, e)"
    by (simp add: WithContext_eq h1_def m1_def c_def)
  from l have l1: "load h1 e = Some m1" unfolding h1_def by (rule load_update_same)
  then have w2: "WithContext h1 e key v2 = Some (h2, e)"
    by (simp add: WithContext_eq h2_def m2_def m1_def)
  from l1 have l2: "load h2 e = Some m2" unfolding h2_def by (rule load_update_same)
  have c2: "Context m2 = Some (c(key \<mapsto> v2))" by (simp add: m2_def)
  have o: "\<forall>k. k \<noteq> key \<longrightarrow> (c(key \<mapsto> v2)) k = (case Context m of None \<Rightarrow> None | Some c \<Rightarrow> c k)"
    by (simp add: c_def split: option.splits)
  from w1 w2 l2 c2 o
  show "\<exists>h1 h2 m2 c2.
         WithContext h e key v1 = Some (h1, e) \<and> WithContext h1 e key v2 = Some (h2, e)
         \<and> load h2 e = Some m2 \<and> Context m2 = Some c2 \<and> c2 key = Some v2
         \<and> (\<forall>k. k \<noteq> key \<longrightarrow> c2 k = (case Context m of None \<Rightarrow> None | Some c \<Rightarrow> c k))"
    by (intro exI[of _ h1] exI[of _ h2] exI[of _ m2] exI[of _ "c(key \<mapsto> v2)"]) simp
next
  assume l: "load_root g p = Some r" and c: "Context_root r = Some c0"
  define r1 where "r1 = r\<lparr>Context_root := Some (c0(key \<mapsto> w1))\<rparr>"
  define r2 where "r2 = r1\<lparr>Context_root := Some (c0(key \<mapsto> w1, key \<mapsto> w2))\<rparr>"
  define g1 where "g1 = g[p := Managed_root r1]"
  define g2 where "g2 = g1[p := Managed_root r2]"
  from l c have w1: "WithContext_root g p key w1 = Some (g1, p)"
    by (simp add: WithContext_root_eq g1_def r1_def)
  from l have l1: "load_root g1 p = Some r1" unfolding g1_def by (rule load_root_update_same)
  have c1: "Context_root r1 = Some (c0(key \<mapsto> w1))" by (simp add: r1_def)
  from l1 c1 have w2: "WithContext_root g1 p key w2 = Some (g2, p)"
    by (simp add: WithContext_root_eq g2_def r2_def)
  from l1 have l2: "load_root g2 p = Some r2" unfolding g2_def by (rule load_root_update_same)
  have c2: "Context_root r2 = Some (c0(key \<mapsto> w2))" by (simp add: r2_def)
  from w1 w2 l2 c2
  show "\<exists>g1 g2 r2 c2.
         WithContext_root g p key w1 = Some (g1, p) \<and> WithContext_root g1 p key w2 = Some (g2, p)
         \<and> load_root g2 p = Some r2 \<and> Context_root r2 = Some c2 \<and> c2 key = Some w2
         \<and> (\<forall>k. k \<noteq> key \<longrightarrow> c2 k = c0 k)"
    by (intro exI[of _ g1] exI[of _ g2] exI[of _ r2] exI[of _ "c0(key \<mapsto> w2)"]) simp
qed

theorem WithContext_last_write_wins_witness:
  "load store1 1 \<noteq> None
   \<and> load_root store1_root 0 \<noteq> None
   \<and> map_option Context_root (load_root store1_root 0) = Some (Some [''user_id'' \<mapsto> 7])
   \<and> (\<exists>h1 h2 m2 c2.
         WithContext store1 1 ''a'' ''1'' = Some (h1, 1) \<and> WithContext h1 1 ''a'' ''2'' = Some (h2, 1)
         \<and> load h2 1 = Some m2 \<and> Context m2 = Some c2 \<and> c2 ''a'' = Some ''2''
         \<and> c2 ''host'' = Some ''a'')
   \<and> (\<exists>g1 g2 r2 c2.
         WithContext_root store1_root 0 ''a'' 1 = Some (g1, 0)
         \<and> WithContext_root g1 0 ''a'' 2 = Some (g2, 0)
         \<and> load_root g2 0 = Some r2 \<and> Context_root r2 = Some c2 \<and> c2 ''a'' = Some 2
         \<and> c2 ''user_id'' = Some 7)"
proof -
  let ?m = "\<lparr>Code = ''api_timeout'', Message = ''API timeout'', Details = '''',
             Cause = Some 0, Context = Some [''host'' \<mapsto> ''a''], Type = ExternalError,
             StatusCode = 0, Retryable = True\<rparr>"
  let ?r = "\<lparr>Type_root = ValidationError_root, Message_root = ''email is required'',
             Cause_root = None, Context_root = Some [''user_id'' \<mapsto> (7::int)]\<rparr>"
  have l: "load store1 1 = Some ?m" by (simp add: load_def deref_def store1_def)
  have lr: "load_root store1_root 0 = Some ?r"
    by (simp add: load_root_def deref_def store1_root_def)
  have cr: "Context_root ?r = Some [''user_id'' \<mapsto> (7::int)]" by simp
  from WithContext_last_write_wins[of store1 1 ?m "''a''" "''1''" "''2''" store1_root 0 ?r
      "[''user_id'' \<mapsto> 7]" 1 2] l lr cr
  have "(\<exists>h1 h2 m2 c2.
         WithContext store1 1 ''a'' ''1'' = Some (h1, 1) \<and> WithContext h1 1 ''a'' ''2'' = Some (h2, 1)
         \<and> load h2 1 = Some m2 \<and> Context m2 = Some c2 \<and> c2 ''a'' = Some ''2''
         \<and> (\<forall>k. k \<noteq> ''a'' \<longrightarrow> c2 k = [''host'' \<mapsto> ''a''] k))
     \<and> (\<exists>g1 g2 r2 c2.
         WithContext_root store1_root 0 ''a'' 1 = Some (g1, 0)
         \<and> WithContext_root g1 0 ''a'' 2 = Some (g2, 0)
         \<and> load_root g2 0 = Some r2 \<and> Context_root r2 = Some c2 \<and> c2 ''a'' = Some 2
         \<and> (\<forall>k. k \<noteq> ''a'' \<longrightarrow> c2 k = [''user_id'' \<mapsto> 7] k))"
    by simp
  then have "(\<exists>h1 h2 m2 c2.
         WithContext store1 1 ''a'' ''1'' = Some (h1, 1) \<and> WithContext h1 1 ''a'' ''2'' = Some (h2, 1)
         \<and> load h2 1 = Some m2 \<and> Context m2 = Some c2 \<and> c2 ''a'' = Some ''2''
         \<and> c2 ''host'' = Some ''a'')
     \<and> (\<exists>g1 g2 r2 c2.
         WithContext_root store1_root 0 ''a'' 1 = Some (g1, 0)
         \<and> WithContext_root g1 0 ''a'' 2 = Some (g2, 0)
         \<and> load_root g2 0 = Some r2 \<and> Context_root r2 = Some c2 \<and> c2 ''a'' = Some 2
         \<and> c2 ''user_id'' = Some 7)"
    by fastforce
  with l lr show ?thesis by simp
qed

subsection \<open>The context is never nil\<close>

lemma run_call_keeps_context:
  assumes "load h e = Some m" and "Context m \<noteq> None"
  shows "\<exists>h' m'. run_call h e c = Some (h', e) \<and> load h' e = Some m' \<and> Context m' \<noteq> None"
proof (cases c)
  case (CallWithDetails details)
  with assms show ?thesis by (auto simp: WithDetails_def load_update_same)
next
  case (CallWithContext key val)
  with assms show ?thesis by (auto simp: WithContext_eq load_update_same)
next
  case (CallWithRetryable retryable)
  with assms show ?thesis by (auto simp: WithRetryable_def load_update_same)
next
  case (CallWithStatusCode code)
  with assms show ?thesis by (auto simp: WithStatusCode_def load_update_same)
qed

lemma run_calls_keep_context:
  "load h e = Some m \<Longrightarrow> Context m \<noteq> None \<Longrightarrow>
   \<exists>h' m' ctx. run_calls h e cs = Some (h', e) \<and> load h' e = Some m' \<and> Context m' = Some ctx"
proof (induction cs arbitrary: h m)
  case Nil
  then show ?case by auto
next
  case (Cons c cs)
  from run_call_keeps_context[OF Cons.prems, of c]
  obtain h1 m1 where r: "run_call h e c = Some (h1, e)" and l: "load h1 e = Some m1"
    and n: "Context m1 \<noteq> None" by blast
  from Cons.IH[OF l n] r show ?case by simp
qed

lemma run_calls_root_keep_context:
  "load_root g p = Some r \<Longrightarrow> Context_root r \<noteq> None \<Longrightarrow>
   \<exists>g' r' ctx. run_calls_root g p kvs = Some (g', p) \<and> load_root g' p = Some r'
      \<and> Context_root r' = Some ctx"
proof (induction kvs arbitrary: g r)
  case Nil
  then show ?case by auto
next
  case (Cons kv kvs)
  obtain key val where kv: "kv = (key, val)" by (cases kv)
  from Cons.prems obtain c where c: "Context_root r = Some c" by auto
  let ?r1 = "r\<lparr>Context_root := Some (c(key \<mapsto> val))\<rparr>"
  let ?g1 = "g[p := Managed_root ?r1]"
  from Cons.prems(1) c have w: "WithContext_root g p key val = Some (?g1, p)"
    by (rule WithContext_root_eq)
  from Cons.prems(1) have l: "load_root ?g1 p = Some ?r1" by (rule load_root_update_same)
  have n: "Context_root ?r1 \<noteq> None" by simp
  from Cons.IH[OF l n] w kv show ?case by simp
qed

lemma New_root_eq:
  "New_root g t msg =
     (g @ [Managed_root \<lparr>Type_root = t, Message_root = msg, Cause_root = None,
                          Context_root = Some Map.empty\<rparr>], length g)"
  by (simp add: New_root_def alloc_def)

lemma Wrap_root_eq:
  "Wrap_root g err t msg =
     (g @ [Managed_root \<lparr>Type_root = t, Message_root = msg, Cause_root = err,
                          Context_root = Some Map.empty\<rparr>], length g)"
  by (simp add: Wrap_root_def alloc_def)

lemma load_root_alloc_new: "load_root (g @ [Managed_root r]) (length g) = Some r"
  by (simp add: load_root_def deref_def)

text \<open>
  Claim C8.  Each of the four constructors returns an error whose context is the empty
  map, not the nil map.  Whatever chain of fluent calls follows, every call returns,
  returns the same pointer, and leaves the context a map (never nil); in the first
  generation a lookup in it then answers from that map.
\<close>

theorem context_never_nil:
  "(map_option Context (load (fst (NewError h k c msg)) (snd (NewError h k c msg)))
      = Some (Some Map.empty))
   \<and> (map_option Context (load (fst (NewErrorWithCause h k c msg cause))
         (snd (NewErrorWithCause h k c msg cause))) = Some (Some Map.empty))
   \<and> (\<exists>h' m' ctx.
         run_calls (fst (NewError h k c msg)) (snd (NewError h k c msg)) cs
           = Some (h', snd (NewError h k c msg))
         \<and> load h' (snd (NewError h k c msg)) = Some m' \<and> Context m' = Some ctx)
   \<and> (\<exists>h' m' ctx.
         run_calls (fst (NewErrorWithCause h k c msg cause))
             (snd (NewErrorWithCause h k c msg cause)) cs
           = Some (h', snd (NewErrorWithCause h k c msg cause))
         \<and> load h' (snd (NewErrorWithCause h k c msg cause)) = Some m' \<and> Context m' = Some ctx)
   \<and> (map_option Context_root (load_root (fst (New_root g t msg)) (snd (New_root g t msg)))
         = Some (Some Map.empty))
   \<and> (map_option Context_root (load_root (fst (Wrap_root g cause t msg))
         (snd (Wrap_root g cause t msg))) = Some (Some Map.empty))
   \<and> (\<exists>g' r' ctx.
         run_calls_root (fst (New_root g t msg)) (snd (New_root g t msg)) kvs
           = Some (g', snd (New_root g t msg))
         \<and> load_root g' (snd (New_root g t msg)) = Some r' \<and> Context_root r' = Some ctx
         \<and> (\<forall>key. GetContext_root g' (snd (New_root g t msg)) key = Some (ctx key)))
   \<and> (\<exists>g' r' ctx.
         run_calls_root (fst (Wrap_root g cause t msg)) (snd (Wrap_root g cause t msg)) kvs
           = Some (g', snd (Wrap_root g cause t msg))
         \<and> load_root g' (snd (Wrap_root g cause t msg)) = Some r' \<and> Context_root r' = Some ctx
         \<and> (\<forall>key. GetContext_root g' (snd (Wrap_root g cause t msg)) key = Some (ctx key)))"
proof (intro conjI)
  show "map_option Context (load (fst (NewError h k c msg)) (snd (NewError h k c msg)))
      = Some (Some Map.empty)"
    by (simp add: NewError_eq load_alloc_new)
  show "map_option Context (load (fst (NewErrorWithCause h k c msg cause))
         (snd (NewErrorWithCause h k c msg cause))) = Some (Some Map.empty)"
    by (simp add: NewErrorWithCause_eq load_alloc_new)
  show "\<exists>h' m' ctx.
         run_calls (fst (NewError h k c msg)) (snd (NewError h k c msg)) cs
           = Some (h', snd (NewError h k c msg))
         \<and> load h' (snd (NewError h k c msg)) = Some m' \<and> Context m' = Some ctx"
    unfolding NewError_eq fst_conv snd_conv
    by (rule run_calls_keep_context[OF load_alloc_new]) simp
  show "\<exists>h' m' ctx.
         run_calls (fst (NewErrorWithCause h k c msg cause))
             (snd (NewErrorWithCause h k c msg cause)) cs
           = Some (h', snd (NewErrorWithCause h k c msg cause))
         \<and> load h' (snd (NewErrorWithCause h k c msg cause)) = Some m' \<and> Context m' = Some ctx"
    unfolding NewErrorWithCause_eq fst_conv snd_conv
    by (rule run_calls_keep_context[OF load_alloc_new]) simp
  show "map_option Context_root (load_root (fst (New_root g t msg)) (snd (New_root g t msg)))
         = Some (Some Map.empty)"
    by (simp add: New_root_eq load_root_alloc_new)
  show "map_option Context_root (load_root (fst (Wrap_root g cause t msg))
         (snd (Wrap_root g cause t msg))) = Some (Some Map.empty)"
    by (simp add: Wrap_root_eq load_root_alloc_new)
  have look: "\<And>g' p r' ctx. load_root g' p = Some r' \<Longrightarrow> Context_root r' = Some ctx
      \<Longrightarrow> \<forall>key. GetContext_root g' p key = Some (ctx key)"
    by (simp add: GetContext_root_def)
  show "\<exists>g' r' ctx.
         run_calls_root (fst (New_root g t msg)) (snd (New_root g t msg)) kvs
           = Some (g', snd (New_root g t msg))
         \<and> load_root g' (snd (New_root g t msg)) = Some r' \<and> Context_root r' = Some ctx
         \<and> (\<forall>key. GetContext_root g' (snd (New_root g t msg)) key = Some (ctx key))"
    unfolding New_root_eq fst_conv snd_conv
    using run_calls_root_keep_context[OF load_root_alloc_new, of _ g kvs] look
    by (metis ManagedError_root.select_convs(4) option.distinct(1))
  show "\<exists>g' r' ctx.
         run_calls_root (fst (Wrap_root g cause t msg)) (snd (Wrap_root g cause t msg)) kvs
           = Some (g', snd (Wrap_root g cause t msg))
         \<and> load_root g' (snd (Wrap_root g cause t msg)) = Some r' \<and> Context_root r' = Some ctx
         \<and> (\<forall>key. GetContext_root g' (snd (Wrap_root g cause t msg)) key = Some (ctx key))"
    unfolding Wrap_root_eq fst_conv snd_conv
    using run_calls_root_keep_context[OF load_root_alloc_new, of _ g kvs] look
    by (metis ManagedError_root.select_convs(4) option.distinct(1))
qed

theorem context_never_nil_witness:
  "\<exists>h' m' ctx.
     run_calls (fst (NewError [] ValidationError ''invalid_email'' ''Email format is invalid''))
         (snd (NewError [] ValidationError ''invalid_email'' ''Email format is invalid''))
         [CallWithDetails ''Must contain @'', CallWithContext ''field'' ''email'',
          CallWithStatusCode 400]
       = Some (h', snd (NewError [] ValidationError ''invalid_email'' ''Email format is invalid''))
     \<and> load h' (snd (NewError [] ValidationError ''invalid_email'' ''Email format is invalid''))
         = Some m'
     \<and> Context m' = Some ctx"
  by (rule context_never_nil[THEN conjunct2, THEN conjunct2, THEN conjunct1])

section \<open>Properties of matching\<close>

lemma errors_is_same: "errors_is h a a = Some True"
  by (subst errors_is.simps) simp

lemma errors_is_invalid: "a \<noteq> t \<Longrightarrow> deref h a = None \<Longrightarrow> errors_is h a t = None"
  by (subst errors_is.simps) simp


lemma errors_is_WrapError:
  "a \<noteq> t \<Longrightarrow> deref h a = Some (WrapError msg b) \<Longrightarrow> errors_is h a t = errors_is h b t"
  by (subst errors_is.simps) simp

text \<open>
  On a \<open>*ManagedError\<close> the loop of \<open>errors.Is\<close> calls the method \<open>Is\<close> and, when that
  answers false, goes on with the cause.
\<close>

lemma errors_is_Managed:
  assumes "a \<noteq> t" and "deref h a = Some (Managed e)"
  shows "errors_is h a t =
     do {
       r \<leftarrow> ManagedError_Is h a (Some t);
       if r then Some True else errors_Is h (Cause e) (Some t)
     }"
proof -
  from assms(2) have l: "load h a = Some e" by (simp add: load_def)
  show ?thesis
  proof (cases "Cause e")
    case None
    then show ?thesis
      by (subst errors_is.simps)
         (simp add: assms l ManagedError_Is_def errors_As_def errors_Is_def
            split: option.splits as_result.splits cong: if_cong)
  next
    case (Some c)
    then show ?thesis
      by (subst errors_is.simps)
         (simp add: assms l ManagedError_Is_def errors_As_def errors_Is_def
            split: option.splits as_result.splits cong: if_cong)
  qed
qed

subsection \<open>Loose equivalence of managed errors\<close>

text \<open>
  Claim C3.  For two managed errors \<open>e\<close> and \<open>t\<close>, \<open>e.Is(t)\<close> is true exactly when their
  \<open>Type\<close> and \<open>Code\<close> agree; message, details and context play no part.  In particular
  two errors built by \<open>NewError\<close> match, under \<open>Is\<close> and under \<open>errors.Is\<close>, exactly
  when they were given the same type and the same code, whatever their messages.
\<close>

theorem ManagedError_Is_type_and_code:
  "(load h e = Some me \<longrightarrow> load h t = Some mt \<longrightarrow>
      ManagedError_Is h e (Some t) = Some (Type me = Type mt \<and> Code me = Code mt))
   \<and> (NewError h0 k c msg = (h1, p1) \<longrightarrow> NewError h1 k' c' msg' = (h2, p2) \<longrightarrow>
        ManagedError_Is h2 p1 (Some p2) = Some (k = k' \<and> c = c')
        \<and> errors_Is h2 (Some p1) (Some p2) = Some (k = k' \<and> c = c'))"
proof (intro conjI impI)
  assume e: "load h e = Some me" and t: "load h t = Some mt"
  from t have "errors_As h (Some t) = Some (AsTrue t)" by (rule errors_As_Managed)
  with e t show "ManagedError_Is h e (Some t) = Some (Type me = Type mt \<and> Code me = Code mt)"
    by (simp add: ManagedError_Is_def)
next
  assume n1: "NewError h0 k c msg = (h1, p1)" and n2: "NewError h1 k' c' msg' = (h2, p2)"
  let ?m1 = "\<lparr>Code = c, Message = msg, Details = '''', Cause = None,
              Context = Some Map.empty, Type = k, StatusCode = 0, Retryable = False\<rparr>"
  let ?m2 = "\<lparr>Code = c', Message = msg', Details = '''', Cause = None,
              Context = Some Map.empty, Type = k', StatusCode = 0, Retryable = False\<rparr>"
  from n1 have h1: "h1 = h0 @ [Managed ?m1]" and p1: "p1 = length h0"
    by (simp_all add: NewError_eq)
  from n2 have h2: "h2 = h1 @ [Managed ?m2]" and p2: "p2 = length h1"
    by (simp_all add: NewError_eq)
  have l2: "load h2 p2 = Some ?m2" unfolding h2 p2 by (rule load_alloc_new)
  have "load h1 p1 = Some ?m1" unfolding h1 p1 by (rule load_alloc_new)
  moreover have "p1 < length h1" by (simp add: h1 p1)
  ultimately have l1: "load h2 p1 = Some ?m1" unfolding h2 by (simp add: load_alloc_old)
  from l2 have a2: "errors_As h2 (Some p2) = Some (AsTrue p2)" by (rule errors_As_Managed)
  with l1 l2 show m: "ManagedError_Is h2 p1 (Some p2) = Some (k = k' \<and> c = c')"
    by (simp add: ManagedError_Is_def)
  have ne: "p1 \<noteq> p2" by (simp add: p1 p2 h1)
  from l1 have d1: "deref h2 p1 = Some (Managed ?m1)" by (simp add: load_Some_deref)
  from errors_is_Managed[OF ne d1] m
  have "errors_is h2 p1 p2 = Some (k = k' \<and> c = c')"
    by (simp add: errors_Is_def)
  then show "errors_Is h2 (Some p1) (Some p2) = Some (k = k' \<and> c = c')"
    by (simp add: errors_Is_def)
qed

theorem ManagedError_Is_type_and_code_witness:
  "NewError [] ValidationError ''invalid_email'' ''a'' = (store2a, 0)
   \<and> NewError store2a ValidationError ''invalid_email'' ''b'' = (store2b, 1)
   \<and> NewError store2a BusinessError ''invalid_email'' ''x'' = (store2d, 1)
   \<and> ManagedError_Is store2b 0 (Some 1) = Some True
   \<and> errors_Is store2b (Some 0) (Some 1) = Some True
   \<and> ManagedError_Is store2d 0 (Some 1) = Some False
   \<and> errors_Is store2d (Some 0) (Some 1) = Some False"
proof -
  have a: "NewError [] ValidationError ''invalid_email'' ''a'' = (store2a, 0)"
    by (simp add: NewError_def alloc_def store2a_def)
  have b: "NewError store2a ValidationError ''invalid_email'' ''b'' = (store2b, 1)"
    by (simp add: NewError_def alloc_def store2a_def store2b_def)
  have d: "NewError store2a BusinessError ''invalid_email'' ''x'' = (store2d, 1)"
    by (simp add: NewError_def alloc_def store2a_def store2d_def)
  have ne: "ValidationError \<noteq> BusinessError"
    by (simp add: ValidationError_def BusinessError_def)
  from ManagedError_Is_type_and_code[of _ _ _ _ _ "[]" ValidationError "''invalid_email''"
      "''a''" store2a 0 ValidationError "''invalid_email''" "''b''" store2b 1] a b
  have same: "ManagedError_Is store2b 0 (Some 1) = Some True
      \<and> errors_Is store2b (Some 0) (Some 1) = Some True"
    by simp
  from ManagedError_Is_type_and_code[of _ _ _ _ _ "[]" ValidationError "''invalid_email''"
      "''a''" store2a 0 BusinessError "''invalid_email''" "''x''" store2d 1] a d ne
  have diff: "ManagedError_Is store2d 0 (Some 1) = Some False
      \<and> errors_Is store2d (Some 0) (Some 1) = Some False"
    by simp
  from a b d same diff show ?thesis by simp
qed

subsection \<open>Matching an error that is not managed\<close>










section \<open>Properties of wrapping and rendering\<close>

lemma Error_alloc_old: "a < length h \<Longrightarrow> Error (h @ [obj]) a = Error h a"
  by (auto simp: Error_def ManagedError_Error_def load_alloc_old deref_alloc_old
      split: option.splits object.splits)

lemma Error_valid: "Error h a = Some s \<Longrightarrow> a < length h"
  by (auto simp: Error_def deref_def split: if_splits)

lemma Wrap_eq:
  "Error h a = Some s \<Longrightarrow>
   Wrap h (Some a) message = Some (h @ [WrapError (message @ '': '' @ s) a], length h)"
  by (simp add: Wrap_def fmt_Errorf_def alloc_def)

lemma Wrap_result:
  assumes e: "Error h a = Some s"
  shows "\<exists>h' w. Wrap h (Some a) message = Some (h', w)
         \<and> w = length h
         \<and> Error h' w = Some (message @ '': '' @ s)
         \<and> Error h' a = Some s
         \<and> errors_Unwrap h' w = Some a
         \<and> in_chain h' w a
         \<and> errors_Is h' (Some w) (Some a) = Some True"
proof -
  from e have len: "a < length h" by (rule Error_valid)
  let ?h' = "h @ [WrapError (message @ '': '' @ s) a]"
  let ?w = "length h"
  from e have w: "Wrap h (Some a) message = Some (?h', ?w)" by (rule Wrap_eq)
  have r: "Error ?h' ?w = Some (message @ '': '' @ s)" by (simp add: Error_def deref_def)
  from len e have o: "Error ?h' a = Some s" by (simp add: Error_alloc_old)
  have u: "errors_Unwrap ?h' ?w = Some a" by (simp add: errors_Unwrap_def deref_def)
  from len have "in_chain ?h' a a" by (intro chain_here) simp
  with u have c: "in_chain ?h' ?w a" by (rule chain_step)
  from len have ne: "?w \<noteq> a" by simp
  have "deref ?h' ?w = Some (WrapError (message @ '': '' @ s) a)" by (rule deref_alloc_new)
  with ne have "errors_is ?h' ?w a = Some True"
    by (simp add: errors_is_WrapError errors_is_same)
  then have i: "errors_Is ?h' (Some ?w) (Some a) = Some True" by (simp add: errors_Is_def)
  from w r o u c i show ?thesis by blast
qed

lemma Wrapf_Wrap: "Wrapf Sprintf h err format args = Wrap h err (Sprintf format args)"
  by (simp add: Wrapf_def Wrap_def)

lemma Sprintf_fragment_literal_char:
  "c \<noteq> CHR ''%'' \<Longrightarrow>
   Sprintf_fragment (c # cs) args = map_option ((#) c) (Sprintf_fragment cs args)"
  by (cases cs) auto

lemma Sprintf_fragment_literal:
  "CHR ''%'' \<notin> set lit \<Longrightarrow>
   Sprintf_fragment (lit @ format) args = map_option ((@) lit) (Sprintf_fragment format args)"
proof (induction lit)
  case Nil
  show ?case by (simp add: option.map_ident)
next
  case (Cons c lit)
  then have "c \<noteq> CHR ''%''" and "CHR ''%'' \<notin> set lit" by auto
  with Cons.IH show ?case
    by (simp add: Sprintf_fragment_literal_char option.map_comp comp_def)
qed

lemma Sprintf_fragment_verb_s:
  "Sprintf_fragment (''%s'' @ rest) (ArgString x # xs)
     = map_option ((@) x) (Sprintf_fragment rest xs)"
  by simp

lemma Sprintf_fragment_verb_d:
  "Sprintf_fragment (''%d'' @ rest) (ArgInt i # xs)
     = map_option ((@) (itoa i)) (Sprintf_fragment rest xs)"
  by simp

lemma Sprintf_fragment_first_s:
  assumes "CHR ''%'' \<notin> set lit" and "Sprintf_fragment rest xs = Some r"
  shows "Sprintf_fragment (lit @ ''%s'' @ rest) (ArgString x # xs) = Some (lit @ x @ r)"
proof -
  have "Sprintf_fragment (lit @ ''%s'' @ rest) (ArgString x # xs)
      = map_option ((@) lit) (Sprintf_fragment (''%s'' @ rest) (ArgString x # xs))"
    by (rule Sprintf_fragment_literal[OF assms(1)])
  also have "\<dots> = map_option ((@) lit) (map_option ((@) x) (Sprintf_fragment rest xs))"
    by (simp only: Sprintf_fragment_verb_s)
  also have "\<dots> = Some (lit @ x @ r)" by (simp add: assms(2))
  finally show ?thesis .
qed

lemma Sprintf_fragment_first_d:
  assumes "CHR ''%'' \<notin> set lit" and "Sprintf_fragment rest xs = Some r"
  shows "Sprintf_fragment (lit @ ''%d'' @ rest) (ArgInt i # xs) = Some (lit @ itoa i @ r)"
proof -
  have "Sprintf_fragment (lit @ ''%d'' @ rest) (ArgInt i # xs)
      = map_option ((@) lit) (Sprintf_fragment (''%d'' @ rest) (ArgInt i # xs))"
    by (rule Sprintf_fragment_literal[OF assms(1)])
  also have "\<dots> = map_option ((@) lit) (map_option ((@) (itoa i)) (Sprintf_fragment rest xs))"
    by (simp only: Sprintf_fragment_verb_d)
  also have "\<dots> = Some (lit @ itoa i @ r)" by (simp add: assms(2))
  finally show ?thesis .
qed

text \<open>
  Claim C6.  For an error \<open>err\<close> that renders as \<open>s\<close>, \<open>Wrap(err, message)\<close> returns a
  new error object that renders as \<open>message: s\<close>, leaves \<open>err\<close> as it was, unwraps to
  \<open>err\<close>, and is matched with \<open>err\<close> by \<open>errors.Is\<close>.  \<open>Wrapf(err, format, args...)\<close>
  does the same for every format and every list of operands, with the text that
  \<open>fmt.Sprintf\<close> returns for \<open>format\<close> and \<open>args\<close> as the message: it is \<open>Wrap\<close> on
  that text.  When the formatter follows the library's description of the plain
  directives, the operands appear in the rendering in their order: the text before
  the first directive is copied, the first operand fills that directive, and the
  rest of the format goes on with the remaining operands.
\<close>

theorem Wrap_renders_and_reaches:
  "(Error h a = Some s \<longrightarrow>
      (\<exists>h' w. Wrap h (Some a) message = Some (h', w)
         \<and> w = length h
         \<and> Error h' w = Some (message @ '': '' @ s)
         \<and> Error h' a = Some s
         \<and> errors_Unwrap h' w = Some a
         \<and> in_chain h' w a
         \<and> errors_Is h' (Some w) (Some a) = Some True))
   \<and> (Error h a = Some s \<longrightarrow>
      (\<exists>h' w. Wrapf Sprintf h (Some a) format args = Some (h', w)
         \<and> w = length h
         \<and> Error h' w = Some (Sprintf format args @ '': '' @ s)
         \<and> Error h' a = Some s
         \<and> errors_Unwrap h' w = Some a
         \<and> in_chain h' w a
         \<and> errors_Is h' (Some w) (Some a) = Some True))
   \<and> Wrapf Sprintf h err format args = Wrap h err (Sprintf format args)
   \<and> ((\<forall>f ys t. Sprintf_fragment f ys = Some t \<longrightarrow> Sp f ys = t) \<longrightarrow>
       Error h a = Some s \<longrightarrow> CHR ''%'' \<notin> set lit \<longrightarrow> Sprintf_fragment rest xs = Some r \<longrightarrow>
         (\<exists>h' w. Wrapf Sp h (Some a) (lit @ ''%s'' @ rest) (ArgString x # xs) = Some (h', w)
            \<and> w = length h
            \<and> Error h' w = Some (lit @ x @ r @ '': '' @ s))
         \<and> (\<exists>h' w. Wrapf Sp h (Some a) (lit @ ''%d'' @ rest) (ArgInt i # xs) = Some (h', w)
            \<and> w = length h
            \<and> Error h' w = Some (lit @ itoa i @ r @ '': '' @ s)))"
proof (intro conjI impI)
  assume e: "Error h a = Some s"
  then show "\<exists>h' w. Wrap h (Some a) message = Some (h', w)
         \<and> w = length h
         \<and> Error h' w = Some (message @ '': '' @ s)
         \<and> Error h' a = Some s
         \<and> errors_Unwrap h' w = Some a
         \<and> in_chain h' w a
         \<and> errors_Is h' (Some w) (Some a) = Some True"
    by (rule Wrap_result)
next
  assume e: "Error h a = Some s"
  from Wrap_result[OF e, of "Sprintf format args"]
  show "\<exists>h' w. Wrapf Sprintf h (Some a) format args = Some (h', w)
         \<and> w = length h
         \<and> Error h' w = Some (Sprintf format args @ '': '' @ s)
         \<and> Error h' a = Some s
         \<and> errors_Unwrap h' w = Some a
         \<and> in_chain h' w a
         \<and> errors_Is h' (Some w) (Some a) = Some True"
    by (simp only: Wrapf_Wrap)
next
  show "Wrapf Sprintf h err format args = Wrap h err (Sprintf format args)"
    by (rule Wrapf_Wrap)
next
  assume sp: "\<forall>f ys t. Sprintf_fragment f ys = Some t \<longrightarrow> Sp f ys = t"
    and e: "Error h a = Some s"
    and l: "CHR ''%'' \<notin> set lit"
    and r: "Sprintf_fragment rest xs = Some r"
  from sp Sprintf_fragment_first_s[OF l r, of x]
  have "Sp (lit @ ''%s'' @ rest) (ArgString x # xs) = lit @ x @ r" by blast
  with Wrap_result[OF e, of "Sp (lit @ ''%s'' @ rest) (ArgString x # xs)"]
  show "\<exists>h' w. Wrapf Sp h (Some a) (lit @ ''%s'' @ rest) (ArgString x # xs) = Some (h', w)
            \<and> w = length h
            \<and> Error h' w = Some (lit @ x @ r @ '': '' @ s)"
    by (auto simp: Wrapf_Wrap)
next
  assume sp: "\<forall>f ys t. Sprintf_fragment f ys = Some t \<longrightarrow> Sp f ys = t"
    and e: "Error h a = Some s"
    and l: "CHR ''%'' \<notin> set lit"
    and r: "Sprintf_fragment rest xs = Some r"
  from sp Sprintf_fragment_first_d[OF l r, of i]
  have "Sp (lit @ ''%d'' @ rest) (ArgInt i # xs) = lit @ itoa i @ r" by blast
  with Wrap_result[OF e, of "Sp (lit @ ''%d'' @ rest) (ArgInt i # xs)"]
  show "\<exists>h' w. Wrapf Sp h (Some a) (lit @ ''%d'' @ rest) (ArgInt i # xs) = Some (h', w)
            \<and> w = length h
            \<and> Error h' w = Some (lit @ itoa i @ r @ '': '' @ s)"
    by (auto simp: Wrapf_Wrap)
qed

lemma Sprintf_fragment_attempt:
  "Sprintf_fragment ''attempt %d'' [ArgInt 3] = Some ''attempt 3''"
  by (simp add: itoa_def digit_def)

lemma Sprintf_fragment_port:
  "Sprintf_fragment '':%d'' [ArgInt 5432] = Some '':5432''"
  by (simp add: itoa_def digit_def)

theorem Wrap_renders_and_reaches_witness:
  "Error store4 0 = Some ''file not found''
   \<and> Error store4 1 = Some ''connection failed''
   \<and> (\<exists>h'. Wrap store4 (Some 0) ''failed to read configuration'' = Some (h', 2)
         \<and> Error h' 2 = Some ''failed to read configuration: file not found''
         \<and> errors_Is h' (Some 2) (Some 0) = Some True)
   \<and> (\<exists>h'. Wrapf (\<lambda>format args. the (Sprintf_fragment format args)) store4 (Some 0)
               ''attempt %d'' [ArgInt 3] = Some (h', 2)
         \<and> Error h' 2 = Some ''attempt 3: file not found''
         \<and> errors_Is h' (Some 2) (Some 0) = Some True)
   \<and> (\<exists>h'. Wrapf (\<lambda>format args. the (Sprintf_fragment format args)) store4 (Some 1)
               ''failed to connect to %s:%d'' [ArgString ''localhost'', ArgInt 5432]
             = Some (h', 2)
         \<and> Error h' 2 = Some ''failed to connect to localhost:5432: connection failed'')"
proof -
  let ?Sp = "\<lambda>format args. the (Sprintf_fragment format args)"
  have e0: "Error store4 0 = Some ''file not found''"
    and e1: "Error store4 1 = Some ''connection failed''"
    by (simp_all add: Error_def deref_def store4_def)
  have len: "length store4 = 2" by (simp add: store4_def)
  from Wrap_renders_and_reaches[of store4 0 "''file not found''"
      "''failed to read configuration''", THEN conjunct1] e0 len
  have a: "\<exists>h'. Wrap store4 (Some 0) ''failed to read configuration'' = Some (h', 2)
         \<and> Error h' 2 = Some ''failed to read configuration: file not found''
         \<and> errors_Is h' (Some 2) (Some 0) = Some True"
    by auto
  have sa: "?Sp ''attempt %d'' [ArgInt 3] = ''attempt 3''"
    by (simp only: Sprintf_fragment_attempt option.sel)
  from Wrap_renders_and_reaches[of store4 0 "''file not found''" _ ?Sp
      "''attempt %d''" "[ArgInt 3]", THEN conjunct2, THEN conjunct1] e0 len sa
  have b: "\<exists>h'. Wrapf ?Sp store4 (Some 0) ''attempt %d'' [ArgInt 3] = Some (h', 2)
         \<and> Error h' 2 = Some ''attempt 3: file not found''
         \<and> errors_Is h' (Some 2) (Some 0) = Some True"
    by auto
  have sp: "\<forall>f ys t. Sprintf_fragment f ys = Some t \<longrightarrow> ?Sp f ys = t" by simp
  have l: "CHR ''%'' \<notin> set ''failed to connect to ''" by simp
  from Wrap_renders_and_reaches[of store4 1 "''connection failed''" _ _ _ _ _ ?Sp
      "''failed to connect to ''" "'':%d''" "[ArgInt 5432]" "'':5432''" "''localhost''",
      THEN conjunct2, THEN conjunct2, THEN conjunct2] sp e1 l Sprintf_fragment_port len
  have c: "\<exists>h'. Wrapf ?Sp store4 (Some 1)
               ''failed to connect to %s:%d'' [ArgString ''localhost'', ArgInt 5432]
             = Some (h', 2)
         \<and> Error h' 2 = Some ''failed to connect to localhost:5432: connection failed''"
    by auto
  from e0 e1 a b c show ?thesis by simp
qed

subsection \<open>Rendering\<close>

lemma Error_root_ErrorString:
  "deref g a = Some (ErrorString_root s) \<Longrightarrow> Error_root g a = Some s"
  by (subst Error_root.simps) simp

lemma Error_root_WrapError:
  "deref g a = Some (WrapError_root msg b) \<Longrightarrow> Error_root g a = Some msg"
  by (subst Error_root.simps) simp

lemma Error_root_Managed_plain:
  "deref g a = Some (Managed_root r) \<Longrightarrow> Cause_root r = None \<Longrightarrow>
   Error_root g a = Some (''['' @ String_root (Type_root r) @ ''] '' @ Message_root r)"
  by (subst Error_root.simps) simp

lemma Error_root_Managed_cause:
  "deref g a = Some (Managed_root r) \<Longrightarrow> Cause_root r = Some c \<Longrightarrow>
   Error_root g c = Some s \<Longrightarrow>
   Error_root g a =
     Some (''['' @ String_root (Type_root r) @ ''] '' @ Message_root r @ '': '' @ s)"
  by (subst Error_root.simps) simp

lemma load_root_Some_deref:
  "load_root g a = Some r \<longleftrightarrow> deref g a = Some (Managed_root r)"
  by (auto simp: load_root_def split: option.splits object_root.splits)

lemma heap_ok_root_Managed:
  "heap_ok_root g \<Longrightarrow> a < length g \<Longrightarrow> g ! a = Managed_root r \<Longrightarrow> Cause_root r = Some c
   \<Longrightarrow> c < a"
  by (auto simp: heap_ok_root_def split: object_root.splits option.splits)

lemma Error_root_total:
  assumes ok: "heap_ok_root g"
  shows "a < length g \<Longrightarrow> \<exists>s. Error_root g a = Some s"
proof (induction a rule: less_induct)
  case (less a)
  then have d: "deref g a = Some (g ! a)" by (simp add: deref_def)
  show ?case
  proof (cases "g ! a")
    case (ErrorString_root s)
    with d show ?thesis by (simp add: Error_root_ErrorString)
  next
    case (WrapError_root msg b)
    with d show ?thesis by (simp add: Error_root_WrapError)
  next
    case (Managed_root r)
    show ?thesis
    proof (cases "Cause_root r")
      case None
      with d Managed_root show ?thesis by (simp add: Error_root_Managed_plain)
    next
      case (Some c)
      with ok less.prems Managed_root have "c < a" by (auto dest: heap_ok_root_Managed)
      with less obtain s where "Error_root g c = Some s" by force
      with d Managed_root Some show ?thesis by (simp add: Error_root_Managed_cause)
    qed
  qed
qed

text \<open>
  Claim C1, as the code has it.  Rendering is a function of the store and the error.
  In the first generation a managed error renders as \<open>[<kind>] <message>\<close>, followed by
  \<open>: <rendering of the cause>\<close> when it has a cause; in a well-formed store every error
  renders.  In v1 the bracket holds the kind and the code: a managed error renders as
  \<open>[<kind>:<code>] <message>\<close>, followed by \<open>: <details>\<close> when the details are not empty;
  the cause is never rendered.  In both the rendering contains the message.
\<close>

theorem Error_layout:
  "(load_root g p = Some r \<longrightarrow> Cause_root r = None \<longrightarrow>
      Error_root g p = Some (''['' @ String_root (Type_root r) @ ''] '' @ Message_root r))
   \<and> (load_root g p = Some r \<longrightarrow> Cause_root r = Some c \<longrightarrow> Error_root g c = Some s \<longrightarrow>
      Error_root g p
        = Some (''['' @ String_root (Type_root r) @ ''] '' @ Message_root r @ '': '' @ s))
   \<and> (heap_ok_root g \<longrightarrow> a < length g \<longrightarrow> (\<exists>s. Error_root g a = Some s))
   \<and> (load h e = Some m \<longrightarrow> Details m = '''' \<longrightarrow>
      Error h e = Some (''['' @ Type m @ '':'' @ Code m @ ''] '' @ Message m))
   \<and> (load h e = Some m \<longrightarrow> Details m \<noteq> '''' \<longrightarrow>
      Error h e
        = Some (''['' @ Type m @ '':'' @ Code m @ ''] '' @ Message m @ '': '' @ Details m))
   \<and> (load_root g p = Some r \<longrightarrow> heap_ok_root g \<longrightarrow>
      (\<exists>u v. Error_root g p = Some (u @ Message_root r @ v)))
   \<and> (load h e = Some m \<longrightarrow> (\<exists>u v. Error h e = Some (u @ Message m @ v)))"
proof (intro conjI impI)
  assume l: "load_root g p = Some r" and n: "Cause_root r = None"
  from l have "deref g p = Some (Managed_root r)" by (simp add: load_root_Some_deref)
  then show "Error_root g p = Some (''['' @ String_root (Type_root r) @ ''] '' @ Message_root r)"
    using n by (rule Error_root_Managed_plain)
next
  assume l: "load_root g p = Some r" and c: "Cause_root r = Some c"
    and s: "Error_root g c = Some s"
  from l have "deref g p = Some (Managed_root r)" by (simp add: load_root_Some_deref)
  then show "Error_root g p
      = Some (''['' @ String_root (Type_root r) @ ''] '' @ Message_root r @ '': '' @ s)"
    using c s by (rule Error_root_Managed_cause)
next
  assume "heap_ok_root g" and "a < length g"
  then show "\<exists>s. Error_root g a = Some s" by (rule Error_root_total)
next
  assume l: "load h e = Some m" and d: "Details m = ''''"
  from l have "deref h e = Some (Managed m)" by (simp add: load_Some_deref)
  with l d show "Error h e = Some (''['' @ Type m @ '':'' @ Code m @ ''] '' @ Message m)"
    by (simp add: Error_def ManagedError_Error_def)
next
  assume l: "load h e = Some m" and d: "Details m \<noteq> ''''"
  from l have "deref h e = Some (Managed m)" by (simp add: load_Some_deref)
  with l d show "Error h e
      = Some (''['' @ Type m @ '':'' @ Code m @ ''] '' @ Message m @ '': '' @ Details m)"
    by (simp add: Error_def ManagedError_Error_def)
next
  assume l: "load_root g p = Some r" and ok: "heap_ok_root g"
  from l have dp: "deref g p = Some (Managed_root r)" by (simp add: load_root_Some_deref)
  then have len: "p < length g" and gp: "g ! p = Managed_root r"
    by (auto simp: deref_def split: if_splits)
  show "\<exists>u v. Error_root g p = Some (u @ Message_root r @ v)"
  proof (cases "Cause_root r")
    case None
    with dp have "Error_root g p
        = Some ((''['' @ String_root (Type_root r) @ ''] '') @ Message_root r @ [])"
      by (simp add: Error_root_Managed_plain)
    then show ?thesis by blast
  next
    case (Some c)
    with ok len gp have "c < p" by (auto dest: heap_ok_root_Managed)
    with len have "c < length g" by simp
    with ok obtain s where "Error_root g c = Some s" by (auto dest: Error_root_total)
    with dp Some have "Error_root g p
        = Some ((''['' @ String_root (Type_root r) @ ''] '') @ Message_root r @ ('': '' @ s))"
      by (simp add: Error_root_Managed_cause)
    then show ?thesis by blast
  qed
next
  assume l: "load h e = Some m"
  from l have d: "deref h e = Some (Managed m)" by (simp add: load_Some_deref)
  show "\<exists>u v. Error h e = Some (u @ Message m @ v)"
  proof (cases "Details m = ''''")
    case True
    with l d have "Error h e
        = Some ((''['' @ Type m @ '':'' @ Code m @ ''] '') @ Message m @ [])"
      by (simp add: Error_def ManagedError_Error_def)
    then show ?thesis by blast
  next
    case False
    with l d have "Error h e
        = Some ((''['' @ Type m @ '':'' @ Code m @ ''] '') @ Message m @ ('': '' @ Details m))"
      by (simp add: Error_def ManagedError_Error_def)
    then show ?thesis by blast
  qed
qed

lemma heap_ok_store1_root: "heap_ok_root store1_root"
  by (simp add: heap_ok_root_def store1_root_def less_Suc_eq)

theorem Error_layout_witness:
  "load_root store1_root 0 \<noteq> None \<and> load_root store1_root 2 \<noteq> None
   \<and> heap_ok_root store1_root \<and> (2::nat) < length store1_root
   \<and> Error_root store1_root 1 = Some ''connection timeout''
   \<and> Error_root store1_root 0 = Some ''[ValidationError] email is required''
   \<and> Error_root store1_root 2 = Some ''[InternalError] query failed: connection timeout''
   \<and> load store1 1 \<noteq> None \<and> load store5 0 \<noteq> None
   \<and> Error store1 1 = Some ''[external:api_timeout] API timeout''
   \<and> Error store5 0
       = Some ''[validation:invalid_email] Email format is invalid: Must contain @''"
proof -
  let ?r0 = "\<lparr>Type_root = ValidationError_root, Message_root = ''email is required'',
              Cause_root = None, Context_root = Some [''user_id'' \<mapsto> (7::int)]\<rparr>"
  let ?r2 = "\<lparr>Type_root = InternalError_root, Message_root = ''query failed'',
              Cause_root = Some 1, Context_root = (Some Map.empty :: (string \<rightharpoonup> int) option)\<rparr>"
  let ?m1 = "\<lparr>Code = ''api_timeout'', Message = ''API timeout'', Details = '''',
              Cause = Some 0, Context = Some [''host'' \<mapsto> ''a''], Type = ExternalError,
              StatusCode = 0, Retryable = True\<rparr>"
  let ?m5 = "\<lparr>Code = ''invalid_email'', Message = ''Email format is invalid'',
              Details = ''Must contain @'', Cause = None,
              Context = Some [''field'' \<mapsto> ''email''], Type = ValidationError,
              StatusCode = 400, Retryable = False\<rparr>"
  have l0: "load_root store1_root 0 = Some ?r0" and l2: "load_root store1_root 2 = Some ?r2"
    by (simp_all add: load_root_def deref_def store1_root_def)
  have len: "(2::nat) < length store1_root" by (simp add: store1_root_def)
  have e1: "Error_root store1_root 1 = Some ''connection timeout''"
    by (simp add: Error_root_ErrorString deref_def store1_root_def)
  have l1: "load store1 1 = Some ?m1" by (simp add: load_def deref_def store1_def)
  have l5: "load store5 0 = Some ?m5" by (simp add: load_def deref_def store5_def)
  from Error_layout[of store1_root 0 ?r0, THEN conjunct1] l0
  have a: "Error_root store1_root 0 = Some ''[ValidationError] email is required''"
    by (simp add: String_root_def ValidationError_root_def)
  from Error_layout[of store1_root 2 ?r2 1 "''connection timeout''",
      THEN conjunct2, THEN conjunct1] l2 e1
  have b: "Error_root store1_root 2 = Some ''[InternalError] query failed: connection timeout''"
    by (simp add: String_root_def ValidationError_root_def NotFoundError_root_def
        PermissionError_root_def InternalError_root_def)
  from Error_layout[of _ _ _ _ _ _ store1 1 ?m1,
      THEN conjunct2, THEN conjunct2, THEN conjunct2, THEN conjunct1] l1
  have c: "Error store1 1 = Some ''[external:api_timeout] API timeout''"
    by (simp add: ExternalError_def)
  from Error_layout[of _ _ _ _ _ _ store5 0 ?m5,
      THEN conjunct2, THEN conjunct2, THEN conjunct2, THEN conjunct2, THEN conjunct1] l5
  have d: "Error store5 0
      = Some ''[validation:invalid_email] Email format is invalid: Must contain @''"
    by (simp add: ValidationError_def)
  from l0 l2 heap_ok_store1_root len e1 a b l1 l5 c d show ?thesis by simp
qed

text \<open>
  The claim as written fails in v1, where the bracket is not the kind alone: an error
  of kind \<open>validation\<close> and code \<open>invalid_email\<close> with message \<open>m\<close>, without details or
  cause, does not render as \<open>[validation] m\<close>.
\<close>

theorem Error_layout_counterexample:
  "Error (fst (NewError [] ValidationError ''invalid_email'' ''m''))
         (snd (NewError [] ValidationError ''invalid_email'' ''m''))
     = Some ''[validation:invalid_email] m''
   \<and> Error (fst (NewError [] ValidationError ''invalid_email'' ''m''))
           (snd (NewError [] ValidationError ''invalid_email'' ''m''))
     \<noteq> Some (''['' @ ValidationError @ ''] '' @ ''m'')"
  by (simp add: NewError_def alloc_def Error_def ManagedError_Error_def load_def deref_def
      ValidationError_def)

end
